theory Spec2Isabelle
  imports Complex_Main "HOL-Library.Sublist"
begin

section \<open>Python values used by the upload job subsystem\<close>

text \<open>
  Text is a list of code points; the model covers the code points 0 to 255, which is
  what a \<^typ>\<open>char\<close> holds. \<open>str.strip()\<close> removes the characters for which
  \<open>str.isspace()\<close> holds, \<open>str.lower()\<close> maps the upper-case letters of that range.
\<close>

definition isspace :: "char \<Rightarrow> bool" where
  "isspace c = ((of_char c :: nat) \<in> {9, 10, 11, 12, 13, 28, 29, 30, 31, 32, 133, 160})"

definition strip :: "string \<Rightarrow> string" where
  "strip s = rev (dropWhile isspace (rev (dropWhile isspace s)))"

definition lower_char :: "char \<Rightarrow> char" where
  "lower_char c =
     (let n = (of_char c :: nat)
      in if (65 \<le> n \<and> n \<le> 90) \<or> (192 \<le> n \<and> n \<le> 222 \<and> n \<noteq> 215)
         then char_of (n + 32) else c)"

definition lower :: "string \<Rightarrow> string" where
  "lower s = map lower_char s"

text \<open>Decimal rendering of an integer, as \<open>str(n)\<close> gives it.\<close>

fun dec_nat :: "nat \<Rightarrow> string" where
  "dec_nat n =
     (if n < 10 then [char_of (48 + n)]
      else dec_nat (n div 10) @ [char_of (48 + n mod 10)])"

definition dec_int :: "int \<Rightarrow> string" where
  "dec_int i = (if i < 0 then CHR ''-'' # dec_nat (nat (- i)) else dec_nat (nat i))"

text \<open>
  \<open>repr\<close> of a string: quoted with \<open>'\<close> unless the text holds a \<open>'\<close> and no \<open>"\<close>;
  the quote, the backslash and the unprintable code points are escaped.
\<close>

definition hex_digit :: "nat \<Rightarrow> char" where
  "hex_digit d = (if d < 10 then char_of (48 + d) else char_of (87 + d))"

definition repr_quote :: "string \<Rightarrow> char" where
  "repr_quote s = (if CHR 0x27 \<in> set s \<and> CHR 0x22 \<notin> set s then CHR 0x22 else CHR 0x27)"

definition repr_char :: "char \<Rightarrow> char \<Rightarrow> string" where
  "repr_char q c =
     (let n = (of_char c :: nat)
      in if c = q \<or> c = CHR 0x5C then [CHR 0x5C, c]
         else if n = 9 then [CHR 0x5C, CHR ''t'']
         else if n = 10 then [CHR 0x5C, CHR ''n'']
         else if n = 13 then [CHR 0x5C, CHR ''r'']
         else if n < 32 \<or> (127 \<le> n \<and> n \<le> 160) \<or> n = 173
           then [CHR 0x5C, CHR ''x'', hex_digit (n div 16), hex_digit (n mod 16)]
         else [c])"

definition repr_str :: "string \<Rightarrow> string" where
  "repr_str s = (let q = repr_quote s in q # concat (map (repr_char q) s) @ [q])"

fun join :: "string \<Rightarrow> string list \<Rightarrow> string" where
  "join sep [] = []"
| "join sep [x] = x"
| "join sep (x # y # ys) = x @ sep @ join sep (y # ys)"

definition repr_list :: "string list \<Rightarrow> string" where
  "repr_list xs = ''['' @ join '', '' (map repr_str xs) @ '']''"

definition repr_tuple :: "string list \<Rightarrow> string" where
  "repr_tuple xs =
     (case xs of
        [x] \<Rightarrow> ''('' @ repr_str x @ '',)''
      | _ \<Rightarrow> ''('' @ join '', '' (map repr_str xs) @ '')'')"

subsection \<open>Floats and cell values\<close>

text \<open>
  A Python float is a finite value, an infinity or a NaN. The finite values are
  rationals; the two zeros are not told apart. Parsing a float from text, rounding an
  integer to a float and printing a float are the interpreter's own algorithms: they are
  parameters of the model (\<open>pyrt\<close>), and every theorem holds for all of them.
\<close>

datatype pyfloat = Finite rat | PosInf | NegInf | NaN

record pyrt =
  float_of_str :: "string \<Rightarrow> pyfloat option"  \<comment> \<open>\<open>float(s)\<close>; \<open>None\<close> is ValueError\<close>
  float_of_int :: "int \<Rightarrow> pyfloat option"  \<comment> \<open>\<open>float(n)\<close>; \<open>None\<close> is OverflowError\<close>
  str_of_float :: "pyfloat \<Rightarrow> string"  \<comment> \<open>\<open>str(f)\<close>\<close>

text \<open>
  The scalar values a worksheet row holds with \<open>values_only=True\<close>: empty cell, text,
  integer, float, boolean, and a date or time (carried with its \<open>str\<close> rendering).
\<close>

datatype cell =
  CNone | CStr string | CInt int | CFloat pyfloat | CBool bool | CDateTime string

datatype py_error =
    ValueError string
  | KeyError string
  | IndexError string
  | TypeError string
  | OverflowError string
  | OSError string
  | StorageError string
  | PendingRollbackError string

text \<open>\<open>str(exc)\<close>: the message; for a KeyError the \<open>repr\<close> of the key.\<close>

fun str_exc :: "py_error \<Rightarrow> string" where
  "str_exc (ValueError m) = m"
| "str_exc (KeyError k) = repr_str k"
| "str_exc (IndexError m) = m"
| "str_exc (TypeError m) = m"
| "str_exc (OverflowError m) = m"
| "str_exc (OSError m) = m"
| "str_exc (StorageError m) = m"
| "str_exc (PendingRollbackError m) = m"

fun truthy :: "cell \<Rightarrow> bool" where
  "truthy CNone = False"
| "truthy (CStr s) = (s \<noteq> [])"
| "truthy (CInt n) = (n \<noteq> 0)"
| "truthy (CFloat f) = (f \<noteq> Finite 0)"
| "truthy (CBool b) = b"
| "truthy (CDateTime s) = True"

fun py_str :: "pyrt \<Rightarrow> cell \<Rightarrow> string" where
  "py_str rt CNone = ''None''"
| "py_str rt (CStr s) = s"
| "py_str rt (CInt n) = dec_int n"
| "py_str rt (CFloat f) = str_of_float rt f"
| "py_str rt (CBool b) = (if b then ''True'' else ''False'')"
| "py_str rt (CDateTime s) = s"

fun py_float :: "pyrt \<Rightarrow> cell \<Rightarrow> py_error + pyfloat" where
  "py_float rt CNone = Inl (TypeError ''float() argument must be a string or a real number'')"
| "py_float rt (CStr s) =
     (case float_of_str rt s of
        None \<Rightarrow> Inl (ValueError ''could not convert string to float'')
      | Some f \<Rightarrow> Inr f)"
| "py_float rt (CInt n) =
     (case float_of_int rt n of
        None \<Rightarrow> Inl (OverflowError ''int too large to convert to float'')
      | Some f \<Rightarrow> Inr f)"
| "py_float rt (CFloat f) = Inr f"
| "py_float rt (CBool b) = Inr (Finite (if b then 1 else 0))"
| "py_float rt (CDateTime s) =
     Inl (TypeError ''float() argument must be a string or a real number'')"

text \<open>\<open>int(f)\<close> truncates a finite float toward zero and raises on NaN and infinity.\<close>

definition trunc :: "rat \<Rightarrow> int" where
  "trunc q = (if 0 \<le> q then \<lfloor>q\<rfloor> else \<lceil>q\<rceil>)"

fun py_int :: "pyfloat \<Rightarrow> py_error + int" where
  "py_int (Finite q) = Inr (trunc q)"
| "py_int NaN = Inl (ValueError ''cannot convert float NaN to integer'')"
| "py_int PosInf = Inl (OverflowError ''cannot convert float infinity to integer'')"
| "py_int NegInf = Inl (OverflowError ''cannot convert float infinity to integer'')"

section \<open>Row Normalizer (main.py, \<open>_normalize_row\<close>)\<close>

record user =
  name :: string
  email :: string
  age :: int

text \<open>\<open>raw_row[column_map[column_name]]\<close>: KeyError on a missing key, IndexError past the end.\<close>

definition get_value :: "cell list \<Rightarrow> (string \<rightharpoonup> nat) \<Rightarrow> string \<Rightarrow> py_error + cell" where
  "get_value raw_row column_map column_name =
     (case column_map column_name of
        None \<Rightarrow> Inl (KeyError column_name)
      | Some i \<Rightarrow>
          if i < length raw_row then Inr (raw_row ! i)
          else Inl (IndexError ''tuple index out of range''))"

text \<open>\<open>str(v or "").strip()\<close>\<close>

definition text_of :: "pyrt \<Rightarrow> cell \<Rightarrow> string" where
  "text_of rt v = strip (if truthy v then py_str rt v else [])"

text \<open>
  The \<open>try\<close> block around \<open>int(float(age_value))\<close>: TypeError and ValueError give 0,
  any other exception leaves the function.
\<close>

definition age_of :: "pyrt \<Rightarrow> cell \<Rightarrow> py_error + int" where
  "age_of rt age_value =
     (if age_value \<noteq> CNone \<and> age_value \<noteq> CStr [] then
        (case (case py_float rt age_value of Inl e \<Rightarrow> Inl e | Inr f \<Rightarrow> py_int f) of
           Inl (TypeError m) \<Rightarrow> Inr 0
         | Inl (ValueError m) \<Rightarrow> Inr 0
         | Inl e \<Rightarrow> Inl e
         | Inr n \<Rightarrow> Inr n)
      else Inr 0)"

definition normalize_row :: "pyrt \<Rightarrow> cell list \<Rightarrow> (string \<rightharpoonup> nat) \<Rightarrow> py_error + user" where
  "normalize_row rt raw_row column_map =
     (case get_value raw_row column_map ''name'' of
        Inl e \<Rightarrow> Inl e
      | Inr name_value \<Rightarrow>
     (case get_value raw_row column_map ''email'' of
        Inl e \<Rightarrow> Inl e
      | Inr email_value \<Rightarrow>
     (case get_value raw_row column_map ''age'' of
        Inl e \<Rightarrow> Inl e
      | Inr age_value \<Rightarrow>
     (case age_of rt age_value of
        Inl e \<Rightarrow> Inl e
      | Inr a \<Rightarrow> Inr \<lparr>name = text_of rt name_value, email = text_of rt email_value, age = a\<rparr>))))"

section \<open>Configuration (config.py, \<open>Settings\<close>)\<close>

record settings =
  EXCEL_CHUNK_SIZE :: int
  CLEANUP_EXPIRED_UPLOADS :: bool
  UPLOAD_FILE_RETENTION_HOURS :: int
  REQUIRED_COLUMNS :: "string list"

section \<open>Storage, filesystem and clock\<close>

text \<open>A point in time is a count of microseconds; \<open>timedelta(hours=h)\<close> is \<open>h\<close> hours of them.\<close>

type_synonym time = int

definition timedelta_hours :: "int \<Rightarrow> int" where
  "timedelta_hours h = h * 3600000000"

text \<open>The \<open>upload_jobs\<close> table (models.py, \<open>UploadJob\<close>); nullable columns are options.\<close>

record upload_job =
  job_id :: string
  filename :: string
  saved_path :: string
  status :: string
  chunk_size :: int
  inserted_rows :: int
  error :: "string option"
  created_at :: time
  started_at :: "time option"
  completed_at :: "time option"
  file_deleted_at :: "time option"

text \<open>
  A path of the filesystem holds a directory, a workbook whose active sheet has the given
  rows, or a file the spreadsheet decoder rejects with the given message.
\<close>

datatype node = Dir | Workbook "cell list list" | Unreadable string

text \<open>
  The state the subsystem works on: the two tables, the filesystem and the clock.
  \<open>bulk_writes\<close> logs the batches committed by \<open>bulk_insert_users\<close>, oldest first.
  \<open>storage_fault\<close> and \<open>unlink_fault\<close> say when the storage collaborator rejects a bulk
  write (given the batches committed so far and the new batch) and when the filesystem
  refuses to delete a path; \<open>clock\<close> gives the successive readings of
  \<open>datetime.utcnow()\<close>, \<open>ticks\<close> counts the readings taken. An update of the job
  table succeeds on a Session that has had no failure.
\<close>

record world =
  upload_jobs :: "upload_job list"
  users :: "user list"
  bulk_writes :: "user list list"
  storage_fault :: "user list list \<Rightarrow> user list \<Rightarrow> string option"
  files :: "string \<Rightarrow> node option"
  unlink_fault :: "string \<Rightarrow> string option"
  clock :: "nat \<Rightarrow> time"
  ticks :: nat

definition utcnow :: "world \<Rightarrow> time \<times> world" where
  "utcnow w = (clock w (ticks w), w\<lparr>ticks := Suc (ticks w)\<rparr>)"

definition path_exists :: "world \<Rightarrow> string \<Rightarrow> bool" where
  "path_exists w p = (files w p \<noteq> None)"

definition is_file :: "world \<Rightarrow> string \<Rightarrow> bool" where
  "is_file w p = (case files w p of None \<Rightarrow> False | Some Dir \<Rightarrow> False | Some _ \<Rightarrow> True)"

definition unlink :: "world \<Rightarrow> string \<Rightarrow> (py_error + unit) \<times> world" where
  "unlink w p =
     (case unlink_fault w p of
        Some m \<Rightarrow> (Inl (OSError m), w)
      | None \<Rightarrow> (Inr (), w\<lparr>files := (files w)(p := None)\<rparr>))"

definition load_workbook :: "world \<Rightarrow> string \<Rightarrow> py_error + cell list list" where
  "load_workbook w p =
     (case files w p of
        None \<Rightarrow> Inl (OSError (''[Errno 2] No such file or directory: '' @ repr_str p))
      | Some Dir \<Rightarrow> Inl (OSError (''[Errno 21] Is a directory: '' @ repr_str p))
      | Some (Unreadable m) \<Rightarrow> Inl (OSError m)
      | Some (Workbook rows) \<Rightarrow> Inr rows)"

section \<open>Job Ledger and Batch Writer (crud.py)\<close>

definition bulk_insert_users :: "world \<Rightarrow> user list \<Rightarrow> (py_error + unit) \<times> world" where
  "bulk_insert_users w batch =
     (case storage_fault w (bulk_writes w) batch of
        Some m \<Rightarrow> (Inl (StorageError m), w)
      | None \<Rightarrow> (Inr (), w\<lparr>users := users w @ batch, bulk_writes := bulk_writes w @ [batch]\<rparr>))"

text \<open>\<open>db.query(UploadJob).filter(UploadJob.job_id == job_id).update(...)\<close>\<close>

definition update_job :: "string \<Rightarrow> (upload_job \<Rightarrow> upload_job) \<Rightarrow> world \<Rightarrow> world" where
  "update_job jid f w =
     w\<lparr>upload_jobs := map (\<lambda>j. if job_id j = jid then f j else j) (upload_jobs w)\<rparr>"

text \<open>
  \<open>job_id\<close> is the primary key: adding a second row with the same key is rejected by
  the storage collaborator. The function returns the row it added.
\<close>

definition create_upload_job ::
  "world \<Rightarrow> string \<Rightarrow> string \<Rightarrow> string \<Rightarrow> int \<Rightarrow> (py_error + upload_job) \<times> world" where
  "create_upload_job w jid fname path csize =
     (let (now, w1) = utcnow w;
          job = \<lparr>job_id = jid, filename = fname, saved_path = path, status = ''queued'',
                 chunk_size = csize, inserted_rows = 0, error = None, created_at = now,
                 started_at = None, completed_at = None, file_deleted_at = None\<rparr>
      in if jid \<in> job_id ` set (upload_jobs w1)
         then (Inl (StorageError ''IntegrityError: duplicate primary key''), w1)
         else (Inr job, w1\<lparr>upload_jobs := upload_jobs w1 @ [job]\<rparr>))"

definition get_upload_job :: "world \<Rightarrow> string \<Rightarrow> upload_job option" where
  "get_upload_job w jid = find (\<lambda>j. job_id j = jid) (upload_jobs w)"

definition set_upload_job_running :: "world \<Rightarrow> string \<Rightarrow> world" where
  "set_upload_job_running w jid =
     (let (now, w1) = utcnow w
      in update_job jid (\<lambda>j. j\<lparr>status := ''running'', started_at := Some now, error := None\<rparr>) w1)"

definition set_upload_job_completed :: "world \<Rightarrow> string \<Rightarrow> int \<Rightarrow> world" where
  "set_upload_job_completed w jid n =
     (let (now, w1) = utcnow w
      in update_job jid
           (\<lambda>j. j\<lparr>status := ''completed'', inserted_rows := n, completed_at := Some now,
                  error := None\<rparr>) w1)"

definition set_upload_job_failed :: "world \<Rightarrow> string \<Rightarrow> string \<Rightarrow> world" where
  "set_upload_job_failed w jid err =
     (let (now, w1) = utcnow w
      in update_job jid
           (\<lambda>j. j\<lparr>status := ''failed'', error := Some err, completed_at := Some now\<rparr>) w1)"

definition mark_upload_file_deleted :: "world \<Rightarrow> string \<Rightarrow> world" where
  "mark_upload_file_deleted w jid =
     (let (now, w1) = utcnow w
      in update_job jid (\<lambda>j. j\<lparr>file_deleted_at := Some now\<rparr>) w1)"

text \<open>
  \<open>saved_path\<close> is declared \<open>nullable=False\<close>, so the fourth condition of the query,
  \<open>saved_path IS NOT NULL\<close>, holds of every row.
\<close>

definition get_jobs_for_cleanup :: "world \<Rightarrow> time \<Rightarrow> upload_job list" where
  "get_jobs_for_cleanup w completed_before =
     filter (\<lambda>j. completed_at j \<noteq> None \<and> the (completed_at j) \<le> completed_before
                \<and> file_deleted_at j = None)
       (upload_jobs w)"

definition get_upload_jobs_by_status :: "world \<Rightarrow> string list \<Rightarrow> upload_job list" where
  "get_upload_jobs_by_status w statuses =
     (if statuses = [] then [] else filter (\<lambda>j. status j \<in> set statuses) (upload_jobs w))"

section \<open>Column Resolver and Ingestion Engine (main.py, \<open>process_excel_job\<close>)\<close>

text \<open>
  The dictionary comprehension over \<open>enumerate(headers)\<close>: a later cell with the same
  key replaces an earlier one.
\<close>

definition header_map :: "pyrt \<Rightarrow> cell list \<Rightarrow> (string \<rightharpoonup> nat)" where
  "header_map rt headers =
     fold (\<lambda>(index, v) m.
             if v \<noteq> CNone \<and> strip (py_str rt v) \<noteq> []
             then m(lower (strip (py_str rt v)) \<mapsto> index) else m)
          (enumerate 0 headers) Map.empty"

definition missing_columns :: "settings \<Rightarrow> (string \<rightharpoonup> nat) \<Rightarrow> string list" where
  "missing_columns st hm = filter (\<lambda>column. hm column = None) (REQUIRED_COLUMNS st)"

definition missing_message :: "settings \<Rightarrow> string list \<Rightarrow> string" where
  "missing_message st missing =
     ''Excel must contain columns: '' @ repr_tuple (REQUIRED_COLUMNS st) @
     ''. Missing: '' @ repr_list missing"

definition column_map :: "(string \<rightharpoonup> nat) \<Rightarrow> py_error + (string \<rightharpoonup> nat)" where
  "column_map hm =
     (case hm ''name'' of None \<Rightarrow> Inl (KeyError ''name'') | Some n \<Rightarrow>
     (case hm ''email'' of None \<Rightarrow> Inl (KeyError ''email'') | Some e \<Rightarrow>
     (case hm ''age'' of None \<Rightarrow> Inl (KeyError ''age'') | Some a \<Rightarrow>
        Inr [''name'' \<mapsto> n, ''email'' \<mapsto> e, ''age'' \<mapsto> a])))"

text \<open>
  The loop \<open>for row in rows\<close>, with the batch and the running total as they stand. The
  rows are the tuples the decoder yields, none of them \<open>None\<close>. An exception ends the
  loop; what was committed before stays in the state.
\<close>

fun ingest_rows ::
  "settings \<Rightarrow> pyrt \<Rightarrow> (string \<rightharpoonup> nat) \<Rightarrow> cell list list \<Rightarrow> user list \<Rightarrow> int \<Rightarrow> world
     \<Rightarrow> (py_error + user list \<times> int) \<times> world" where
  "ingest_rows st rt cm [] batch n w = (Inr (batch, n), w)"
| "ingest_rows st rt cm (row # rows) batch n w =
     (case normalize_row rt row cm of
        Inl e \<Rightarrow> (Inl e, w)
      | Inr u \<Rightarrow>
          if name u = [] \<and> email u = [] \<and> age u = 0
          then ingest_rows st rt cm rows batch n w
          else
            (let batch' = batch @ [u]
             in if int (length batch') \<ge> EXCEL_CHUNK_SIZE st
                then (case bulk_insert_users w batch' of
                        (Inl e, w') \<Rightarrow> (Inl e, w')
                      | (Inr _, w') \<Rightarrow>
                          ingest_rows st rt cm rows [] (n + int (length batch')) w')
                else ingest_rows st rt cm rows batch' n w))"

text \<open>
  The body of the \<open>try\<close> after the job is set running: either the exception raised or
  the final running total.
\<close>

definition ingest :: "settings \<Rightarrow> pyrt \<Rightarrow> world \<Rightarrow> string \<Rightarrow> (py_error + int) \<times> world" where
  "ingest st rt w file_path =
     (case load_workbook w file_path of
        Inl e \<Rightarrow> (Inl e, w)
      | Inr sheet \<Rightarrow>
     (case sheet of
        [] \<Rightarrow> (Inl (ValueError ''Excel file is empty''), w)
      | headers # rows \<Rightarrow>
     (let hm = header_map rt headers;
          missing = missing_columns st hm
      in if missing \<noteq> [] then (Inl (ValueError (missing_message st missing)), w)
         else
     (case column_map hm of
        Inl e \<Rightarrow> (Inl e, w)
      | Inr cm \<Rightarrow>
     (case ingest_rows st rt cm rows [] 0 w of
        (Inl e, w') \<Rightarrow> (Inl e, w')
      | (Inr (batch, n), w') \<Rightarrow>
          if batch \<noteq> []
          then (case bulk_insert_users w' batch of
                  (Inl e, w'') \<Rightarrow> (Inl e, w'')
                | (Inr _, w'') \<Rightarrow> (Inr (n + int (length batch)), w''))
          else (Inr n, w'))))))"

text \<open>
  The whole function. The \<open>except\<close> handler works on the Session the run used. A bulk
  write that raised leaves that Session's transaction waiting for a rollback, and the
  code issues none: the handler's own update then raises PendingRollbackError (carried
  here with the message of the first failure), nothing is written to the job's row, and
  the exception leaves the function. After any other exception the Session is usable
  and the job is set failed. \<open>StorageError\<close> is raised by \<open>bulk_insert_users\<close> only.
\<close>

definition process_excel_job ::
  "settings \<Rightarrow> pyrt \<Rightarrow> world \<Rightarrow> string \<Rightarrow> string \<Rightarrow> (py_error + unit) \<times> world" where
  "process_excel_job st rt w jid file_path =
     (case ingest st rt (set_upload_job_running w jid) file_path of
        (Inr n, w') \<Rightarrow> (Inr (), set_upload_job_completed w' jid n)
      | (Inl exc, w') \<Rightarrow>
          (case exc of
             StorageError m \<Rightarrow> (Inl (PendingRollbackError m), w')
           | _ \<Rightarrow> (Inr (), set_upload_job_failed w' jid (str_exc exc))))"

section \<open>Retention Sweeper (main.py, \<open>cleanup_expired_uploads\<close>)\<close>

text \<open>The loop over the selected jobs; \<open>except OSError: continue\<close> skips the marking.\<close>

fun cleanup_loop :: "upload_job list \<Rightarrow> int \<Rightarrow> world \<Rightarrow> int \<times> world" where
  "cleanup_loop [] deleted_files w = (deleted_files, w)"
| "cleanup_loop (job # jobs) deleted_files w =
     (let file_path = saved_path job
      in if path_exists w file_path \<and> is_file w file_path
         then (case unlink w file_path of
                 (Inl e, w') \<Rightarrow> cleanup_loop jobs deleted_files w'
               | (Inr _, w') \<Rightarrow>
                   cleanup_loop jobs (deleted_files + 1) (mark_upload_file_deleted w' (job_id job)))
         else cleanup_loop jobs deleted_files (mark_upload_file_deleted w (job_id job)))"

definition cleanup_expired_uploads :: "settings \<Rightarrow> world \<Rightarrow> int \<times> world" where
  "cleanup_expired_uploads st w =
     (if \<not> CLEANUP_EXPIRED_UPLOADS st then (0, w)
      else
        (let (now, w1) = utcnow w;
             cutoff = now - timedelta_hours (UPLOAD_FILE_RETENTION_HOURS st)
         in cleanup_loop (get_jobs_for_cleanup w1 cutoff) 0 w1))"

section \<open>Recovery Supervisor (main.py, \<open>_recover_jobs_after_restart\<close>)\<close>

definition interrupted_msg :: string where
  "interrupted_msg = ''Job interrupted because server restarted''"

definition not_found_msg :: string where
  "not_found_msg = ''Queued job file not found after server restart''"

fun fail_interrupted :: "upload_job list \<Rightarrow> world \<Rightarrow> world" where
  "fail_interrupted [] w = w"
| "fail_interrupted (job # jobs) w =
     fail_interrupted jobs (set_upload_job_failed w (job_id job) interrupted_msg)"

text \<open>
  The loop over the queued jobs. Each \<open>Thread(target=process_excel_job, ...).start()\<close>
  is recorded as the pair of its arguments; the engine runs so started are not part of
  the supervisor's own steps.
\<close>

fun resume_queued ::
  "upload_job list \<Rightarrow> world \<Rightarrow> (string \<times> string) list \<Rightarrow> world \<times> (string \<times> string) list" where
  "resume_queued [] w started = (w, started)"
| "resume_queued (job # jobs) w started =
     (let file_path = saved_path job
      in if \<not> path_exists w file_path
         then resume_queued jobs (set_upload_job_failed w (job_id job) not_found_msg) started
         else resume_queued jobs w (started @ [(job_id job, file_path)]))"

definition recover_jobs_after_restart :: "world \<Rightarrow> world \<times> (string \<times> string) list" where
  "recover_jobs_after_restart w =
     (let interrupted_jobs = get_upload_jobs_by_status w [''running''];
          w1 = fail_interrupted interrupted_jobs w;
          queued_jobs = get_upload_jobs_by_status w1 [''queued'']
      in resume_queued queued_jobs w1 [])"

section \<open>Notions used to state the properties\<close>

text \<open>
  The float conversion of an age cell neither overflows nor yields an infinity, so that
  \<open>int(float(v))\<close> raises nothing the normalizer does not catch.
\<close>

definition float_ok :: "pyrt \<Rightarrow> cell \<Rightarrow> bool" where
  "float_ok rt v =
     (case py_float rt v of
        Inl (OverflowError m) \<Rightarrow> False
      | Inr PosInf \<Rightarrow> False
      | Inr NegInf \<Rightarrow> False
      | _ \<Rightarrow> True)"

text \<open>
  The age a cell stands for: 0 for an empty cell, the empty text or a value that does
  not parse to a finite number, the number truncated toward zero otherwise.
\<close>

definition parsed_age :: "pyrt \<Rightarrow> cell \<Rightarrow> int" where
  "parsed_age rt v =
     (if v = CNone \<or> v = CStr [] then 0
      else case py_float rt v of Inr (Finite q) \<Rightarrow> trunc q | _ \<Rightarrow> 0)"

text \<open>The names a header row offers: its non-blank, non-null cells, trimmed and lower-cased.\<close>

definition header_names :: "pyrt \<Rightarrow> cell list \<Rightarrow> string set" where
  "header_names rt headers =
     set (map (\<lambda>v. lower (strip (py_str rt v)))
            (filter (\<lambda>v. v \<noteq> CNone \<and> strip (py_str rt v) \<noteq> []) headers))"

definition no_job :: "world \<Rightarrow> string \<Rightarrow> bool" where
  "no_job w jid = (jid \<notin> job_id ` set (upload_jobs w))"

text \<open>The skip rule of the engine: a record with empty name, empty email and age 0.\<close>

definition blank :: "user \<Rightarrow> bool" where
  "blank u = (name u = [] \<and> email u = [] \<and> age u = 0)"

text \<open>The records the data rows normalize to, and among them the ones that are not blank.\<close>

definition normalized :: "pyrt \<Rightarrow> (string \<rightharpoonup> nat) \<Rightarrow> cell list list \<Rightarrow> user list" where
  "normalized rt cm rows =
     concat (map (\<lambda>row. case normalize_row rt row cm of Inl e \<Rightarrow> [] | Inr u \<Rightarrow> [u]) rows)"

definition valid_users :: "pyrt \<Rightarrow> (string \<rightharpoonup> nat) \<Rightarrow> cell list list \<Rightarrow> user list" where
  "valid_users rt cm rows = filter (\<lambda>u. \<not> blank u) (normalized rt cm rows)"

text \<open>The state after the batches \<open>css\<close> have been committed, one bulk write each.\<close>

definition committed :: "world \<Rightarrow> user list list \<Rightarrow> world" where
  "committed w css = w\<lparr>users := users w @ concat css, bulk_writes := bulk_writes w @ css\<rparr>"

text \<open>The state the \<open>except\<close> handler of the engine leaves, from the state it starts in.\<close>

definition after_failure :: "world \<Rightarrow> string \<Rightarrow> py_error \<Rightarrow> world" where
  "after_failure w jid exc =
     (case exc of StorageError m \<Rightarrow> w | _ \<Rightarrow> set_upload_job_failed w jid (str_exc exc))"

text \<open>The ledger with the \<open>chunk_size\<close> of every row replaced, by job id.\<close>

definition set_chunk_sizes :: "(string \<Rightarrow> int) \<Rightarrow> world \<Rightarrow> world" where
  "set_chunk_sizes g w =
     w\<lparr>upload_jobs := map (\<lambda>j. j\<lparr>chunk_size := g (job_id j)\<rparr>) (upload_jobs w)\<rparr>"

text \<open>The primary key of the job table: no two rows share a \<open>job_id\<close>.\<close>

definition ledger_ok :: "world \<Rightarrow> bool" where
  "ledger_ok w = distinct (map job_id (upload_jobs w))"

text \<open>A path that holds a file the filesystem refuses to delete.\<close>

definition stuck :: "world \<Rightarrow> string \<Rightarrow> bool" where
  "stuck w p = (is_file w p \<and> unlink_fault w p \<noteq> None)"

text \<open>What one round of the sweeper's loop does to the state.\<close>

definition sweep_step :: "upload_job \<Rightarrow> world \<Rightarrow> world" where
  "sweep_step job w =
     (if is_file w (saved_path job)
      then (if unlink_fault w (saved_path job) = None
            then mark_upload_file_deleted (w\<lparr>files := (files w)(saved_path job := None)\<rparr>)
                   (job_id job)
            else w)
      else mark_upload_file_deleted w (job_id job))"

text \<open>The cutoff of a sweep that starts in \<open>w\<close>: the clock reading less the retention window.\<close>

definition sweep_cutoff :: "settings \<Rightarrow> world \<Rightarrow> time" where
  "sweep_cutoff st w = clock w (ticks w) - timedelta_hours (UPLOAD_FILE_RETENTION_HOURS st)"

text \<open>Setting the given jobs failed with one message, in order.\<close>

definition fail_jobs :: "string \<Rightarrow> upload_job list \<Rightarrow> world \<Rightarrow> world" where
  "fail_jobs msg jobs w = fold (\<lambda>job w. set_upload_job_failed w (job_id job) msg) jobs w"

subsection \<open>Data for the examples\<close>

text \<open>
  A runtime for the examples: integers convert to the float of the same value (exact
  below \<open>2^53\<close>) and no text parses as a number; the only text the examples hand it is
  \<open>n/a\<close>, and they hand it no float to print.
\<close>

definition example_rt :: pyrt where
  "example_rt = \<lparr>float_of_str = (\<lambda>s. None), float_of_int = (\<lambda>n. Some (Finite (of_int n))),
     str_of_float = (\<lambda>f. [])\<rparr>"

text \<open>A name between single quotes, as \<open>repr\<close> prints a plain name.\<close>

definition quoted :: "string \<Rightarrow> string" where
  "quoted s = CHR 0x27 # s @ [CHR 0x27]"

definition example_settings :: settings where
  "example_settings = \<lparr>EXCEL_CHUNK_SIZE = 2, CLEANUP_EXPIRED_UPLOADS = True,
     UPLOAD_FILE_RETENTION_HOURS = 72, REQUIRED_COLUMNS = [''name'', ''email'', ''age'']\<rparr>"

definition example_job :: "string \<Rightarrow> string \<Rightarrow> string \<Rightarrow> upload_job" where
  "example_job jid path st =
     \<lparr>job_id = jid, filename = ''people.xlsx'', saved_path = path, status = st,
      chunk_size = 2, inserted_rows = 0, error = None, created_at = 0,
      started_at = None, completed_at = None, file_deleted_at = None\<rparr>"

definition example_world :: "upload_job list \<Rightarrow> (string \<rightharpoonup> node) \<Rightarrow> world" where
  "example_world jobs fs =
     \<lparr>upload_jobs = jobs, users = [], bulk_writes = [],
      storage_fault = (\<lambda>log batch. None), files = fs, unlink_fault = (\<lambda>p. None),
      clock = (\<lambda>k. 1000 + int k), ticks = 0\<rparr>"

definition w_header_only :: world where
  "w_header_only = example_world [example_job ''j1'' ''f.xlsx'' ''queued'']
     [''f.xlsx'' \<mapsto> Workbook [[CStr '' Name '', CNone, CStr ''  ''], [CStr ''Ann'']]]"

text \<open>
  A sheet with a header row, five records and two blank rows (one of them with an age
  that does not parse), its column mapping, and worlds that hold it: with one queued job,
  with a storage that rejects the second bulk write, and with no job yet.
\<close>

definition people_sheet :: "cell list list" where
  "people_sheet =
     [[CStr ''Name'', CStr '' Email'', CStr ''AGE''],
      [CStr ''Ann'', CStr ''ann@x.org'', CInt 31],
      [CStr ''Bob'', CStr ''bob@x.org'', CInt 42],
      [CNone, CNone, CNone],
      [CStr ''Cy'', CNone, CInt 7],
      [CStr ''Di'', CStr ''di@x.org'', CNone],
      [CNone, CStr ''  '', CStr ''n/a''],
      [CStr ''Ed'', CStr ''ed@x.org'', CInt 19]]"

definition w_people :: world where
  "w_people = example_world [example_job ''j1'' ''f.xlsx'' ''queued''] [''f.xlsx'' \<mapsto> Workbook people_sheet]"

definition cm_people :: "string \<rightharpoonup> nat" where
  "cm_people = [''name'' \<mapsto> 0, ''email'' \<mapsto> 1, ''age'' \<mapsto> 2]"

definition w_fault :: world where
  "w_fault = w_people\<lparr>storage_fault :=
            (\<lambda>log batch. if length log = 1 then Some ''connection lost'' else None)\<rparr>"

definition w_empty :: world where
  "w_empty = example_world [] [''f.xlsx'' \<mapsto> Workbook people_sheet]"

text \<open>
  A ledger for the sweeper, read at a clock of \<open>10^12\<close> microseconds with a retention of
  72 hours: job a completed long ago, b just now, c long ago with its file already
  deleted, d long ago with a file that cannot be deleted, e still running.
\<close>

definition w_sweep :: world where
  "w_sweep =
     (example_world
        [(example_job ''a'' ''a.xlsx'' ''completed'')\<lparr>completed_at := Some 0\<rparr>,
         (example_job ''b'' ''b.xlsx'' ''completed'')\<lparr>completed_at := Some 999999999995\<rparr>,
         (example_job ''c'' ''c.xlsx'' ''failed'')
            \<lparr>completed_at := Some 0, file_deleted_at := Some 5\<rparr>,
         (example_job ''d'' ''d.xlsx'' ''failed'')\<lparr>completed_at := Some 7\<rparr>,
         example_job ''e'' ''e.xlsx'' ''running'']
        [''a.xlsx'' \<mapsto> Workbook [], ''b.xlsx'' \<mapsto> Workbook [], ''d.xlsx'' \<mapsto> Unreadable ''junk'',
         ''e.xlsx'' \<mapsto> Workbook []])
     \<lparr>unlink_fault := (\<lambda>p. if p = ''d.xlsx'' then Some ''Permission denied'' else None),
      clock := (\<lambda>k. 1000000000000 + int k)\<rparr>"

text \<open>
  A ledger at restart: one job left running, a queued job whose file exists, a queued
  job whose file is gone, and a completed job.
\<close>

definition w_restart :: world where
  "w_restart =
     example_world
       [example_job ''r'' ''r.xlsx'' ''running'',
        example_job ''q'' ''q.xlsx'' ''queued'',
        example_job ''m'' ''m.xlsx'' ''queued'',
        (example_job ''c'' ''c.xlsx'' ''completed'')\<lparr>completed_at := Some 3\<rparr>]
       [''r.xlsx'' \<mapsto> Workbook [], ''q.xlsx'' \<mapsto> Workbook []]"

section \<open>Row Normalizer: properties\<close>

lemma dropWhile_rev_fix:
  "dropWhile P (rev r) = rev r \<Longrightarrow> dropWhile P (rev (dropWhile P r)) = rev (dropWhile P r)"
proof (induction r)
  case Nil
  then show ?case by simp
next
  case (Cons x xs)
  show ?case
  proof (cases "P x")
    case False
    then show ?thesis using Cons.prems by simp
  next
    case True
    have "\<exists>y\<in>set (rev xs). \<not> P y"
    proof (rule ccontr)
      assume "\<not> ?thesis"
      then have "dropWhile P (rev (x # xs)) = []" using True by simp
      with Cons.prems have "rev (x # xs) = []" by (simp only:)
      then show False by simp
    qed
    then obtain y where "y \<in> set (rev xs)" "\<not> P y" by blast
    then have "dropWhile P (rev xs @ [x]) = dropWhile P (rev xs) @ [x]"
      by (rule dropWhile_append1)
    then have "dropWhile P (rev xs) = rev xs" using Cons.prems by simp
    then show ?thesis using Cons.IH True by simp
  qed
qed

lemma strip_strip: "strip (strip s) = strip s"
proof -
  have "dropWhile isspace (rev (rev (dropWhile isspace s))) = rev (rev (dropWhile isspace s))"
    by simp
  then have "dropWhile isspace (rev (dropWhile isspace (rev (dropWhile isspace s))))
      = rev (dropWhile isspace (rev (dropWhile isspace s)))"
    by (rule dropWhile_rev_fix)
  then show ?thesis
    by (simp add: strip_def)
qed

lemma text_of_trimmed: "strip (text_of rt v) = text_of rt v"
  by (simp add: text_of_def strip_strip)

lemma text_of_None: "text_of rt CNone = []"
  by (simp add: text_of_def strip_def)

lemma py_float_errors:
  "py_float rt v = Inl e \<Longrightarrow> (\<exists>m. e = TypeError m) \<or> (\<exists>m. e = ValueError m) \<or> (\<exists>m. e = OverflowError m)"
  by (cases v) (auto split: option.splits)

lemma age_of_parsed: "float_ok rt v \<Longrightarrow> age_of rt v = Inr (parsed_age rt v)"
proof (cases "py_float rt v")
  case (Inl e)
  assume ok: "float_ok rt v"
  from py_float_errors[OF Inl] ok Inl show ?thesis
    by (auto simp: age_of_def float_ok_def parsed_age_def)
next
  case (Inr f)
  assume "float_ok rt v"
  with Inr show ?thesis
    by (cases f) (auto simp: age_of_def float_ok_def parsed_age_def)
qed

lemma trunc_toward_zero:
  "\<bar>of_int (trunc q)\<bar> \<le> \<bar>q\<bar> \<and> \<bar>q\<bar> < \<bar>of_int (trunc q)\<bar> + 1
     \<and> (0 \<le> q \<longrightarrow> 0 \<le> trunc q) \<and> (q \<le> 0 \<longrightarrow> trunc q \<le> 0)"
  unfolding trunc_def by (auto; linarith)

text \<open>
  C3 (amended). For a raw row that holds a cell at each of the three positions the column
  mapping gives, and an age cell whose float conversion does not overflow, the Row
  Normalizer returns a record and raises nothing: name and email are the trimmed texts of
  their cells (empty for a null cell), age is the cell's number truncated toward zero, 0
  for an empty, null or unparsable cell.
\<close>

theorem normalize_row_returns:
  assumes "cm ''name'' = Some i" and "cm ''email'' = Some j" and "cm ''age'' = Some k"
    and "i < length raw_row" and "j < length raw_row" and "k < length raw_row"
    and "float_ok rt (raw_row ! k)"
  shows "normalize_row rt raw_row cm =
           Inr \<lparr>name = text_of rt (raw_row ! i), email = text_of rt (raw_row ! j),
                age = parsed_age rt (raw_row ! k)\<rparr>
         \<and> strip (text_of rt (raw_row ! i)) = text_of rt (raw_row ! i)
         \<and> strip (text_of rt (raw_row ! j)) = text_of rt (raw_row ! j)
         \<and> text_of rt CNone = []"
  using assms
  by (simp add: normalize_row_def get_value_def age_of_parsed text_of_trimmed text_of_None)

theorem normalize_row_returns_witness:
  "float_ok example_rt ([CStr '' Ann '', CNone, CFloat (Finite (-7/2))] ! 2)
   \<and> normalize_row example_rt [CStr '' Ann '', CNone, CFloat (Finite (-7/2))]
        [''name'' \<mapsto> 0, ''email'' \<mapsto> 1, ''age'' \<mapsto> 2]
      = Inr \<lparr>name = ''Ann'', email = [], age = -3\<rparr>"
proof -
  let ?row = "[CStr '' Ann '', CNone, CFloat (Finite (-7/2))]"
  let ?cm = "[''name'' \<mapsto> 0::nat, ''email'' \<mapsto> 1, ''age'' \<mapsto> 2]"
  have ok: "float_ok example_rt (?row ! 2)" by (simp add: float_ok_def)
  have c: "\<lceil>- (7 / 2) :: rat\<rceil> = - 3" by (rule ceiling_unique) simp_all
  have v: "text_of example_rt (?row ! 0) = ''Ann''" "text_of example_rt (?row ! 1) = []"
    "parsed_age example_rt (?row ! 2) = -3"
    by (simp_all add: text_of_def strip_def isspace_def parsed_age_def trunc_def c)
  from normalize_row_returns[of ?cm 0 1 2 ?row example_rt, OF _ _ _ _ _ _ ok] v ok
  show ?thesis by simp
qed

text \<open>
  A row shorter than the mapped positions makes the normalizer raise IndexError: the
  claim as the specification words it fails for such a row.
\<close>

theorem normalize_row_short_row_raises:
  "normalize_row example_rt [CStr ''Ann''] cm_people
     = Inl (IndexError ''tuple index out of range'')"
  by (simp add: normalize_row_def get_value_def cm_people_def)

lemma update_job_absent: "no_job w jid \<Longrightarrow> upload_jobs (update_job jid f w) = upload_jobs w"
  unfolding update_job_def no_job_def
  by (auto intro!: map_idI)

lemma no_job_utcnow: "no_job (snd (utcnow w)) jid = no_job w jid"
  by (simp add: no_job_def utcnow_def)

section \<open>Job Ledger\<close>

text \<open>
  C10. Each update operation of the Job Ledger (set running, set completed, set failed,
  mark file deleted), called with a job id that no row has, leaves every row of the
  ledger as it was; the operations have no error result.
\<close>

theorem ledger_update_unknown_job:
  assumes "no_job w jid"
  shows "upload_jobs (set_upload_job_running w jid) = upload_jobs w
       \<and> upload_jobs (set_upload_job_completed w jid n) = upload_jobs w
       \<and> upload_jobs (set_upload_job_failed w jid err) = upload_jobs w
       \<and> upload_jobs (mark_upload_file_deleted w jid) = upload_jobs w"
proof -
  have a: "no_job (w\<lparr>ticks := Suc (ticks w)\<rparr>) jid" using assms by (simp add: no_job_def)
  show ?thesis
    unfolding set_upload_job_running_def set_upload_job_completed_def
      set_upload_job_failed_def mark_upload_file_deleted_def utcnow_def
    by (simp add: update_job_absent[OF a])
qed

theorem ledger_update_unknown_job_witness:
  "no_job w_header_only ''nope''
   \<and> upload_jobs (set_upload_job_running w_header_only ''nope'') = upload_jobs w_header_only
   \<and> upload_jobs (set_upload_job_completed w_header_only ''nope'' 5) = upload_jobs w_header_only
   \<and> upload_jobs (set_upload_job_failed w_header_only ''nope'' ''boom'') = upload_jobs w_header_only
   \<and> upload_jobs (mark_upload_file_deleted w_header_only ''nope'') = upload_jobs w_header_only"
proof -
  have h: "no_job w_header_only ''nope''"
    by (simp add: no_job_def w_header_only_def example_world_def example_job_def)
  from ledger_update_unknown_job[OF h, of 5 "''boom''"] h show ?thesis by simp
qed

section \<open>Column Resolver\<close>

lemma header_map_fold_dom:
  "dom (fold (\<lambda>(index, v) m.
             if v \<noteq> CNone \<and> strip (py_str rt v) \<noteq> []
             then m(lower (strip (py_str rt v)) \<mapsto> index) else m)
          (enumerate n headers) m0) = dom m0 \<union> header_names rt headers"
  by (induction headers arbitrary: n m0) (auto simp: header_names_def)

lemma dom_header_map: "dom (header_map rt headers) = header_names rt headers"
  by (simp add: header_map_def header_map_fold_dom)

lemma header_map_None: "header_map rt headers c = None \<longleftrightarrow> c \<notin> header_names rt headers"
  unfolding dom_header_map[symmetric] by (simp add: domIff)

lemma sublist_in_right: "sublist x ys \<Longrightarrow> sublist x (ps @ ys)"
proof -
  assume "sublist x ys"
  then obtain a b where "ys = a @ x @ b" by (auto simp: sublist_def)
  then have "ps @ ys = (ps @ a) @ x @ b" by simp
  then show ?thesis unfolding sublist_def by blast
qed

lemma sublist_in_left: "sublist x ys \<Longrightarrow> sublist x (ys @ ss)"
proof -
  assume "sublist x ys"
  then obtain a b where "ys = a @ x @ b" by (auto simp: sublist_def)
  then have "ys @ ss = a @ x @ (b @ ss)" by simp
  then show ?thesis unfolding sublist_def by blast
qed

lemma sublist_join: "x \<in> set xs \<Longrightarrow> sublist x (join sep xs)"
proof (induction sep xs rule: join.induct)
  case (1 sep)
  then show ?case by simp
next
  case (2 sep y)
  then show ?case by simp
next
  case (3 sep y z zs)
  show ?case
  proof (cases "x = y")
    case True
    then show ?thesis by (simp add: sublist_append_rightI)
  next
    case False
    with 3 have "sublist x (join sep (z # zs))" by simp
    then have "sublist x (y @ sep @ join sep (z # zs))"
      by (intro sublist_in_right)
    then show ?thesis by simp
  qed
qed

lemma sublist_repr_list: "c \<in> set xs \<Longrightarrow> sublist (repr_str c) (repr_list xs)"
proof -
  assume "c \<in> set xs"
  then have "sublist (repr_str c) (join '', '' (map repr_str xs))"
    by (intro sublist_join) simp
  then show ?thesis unfolding repr_list_def
    by (intro sublist_in_right sublist_in_left)
qed

lemma sublist_missing_message:
  "c \<in> set missing \<Longrightarrow> sublist (repr_str c) (missing_message st missing)"
  unfolding missing_message_def
  by (intro sublist_in_right sublist_repr_list)

text \<open>
  C6. When a required column is not among the names the header row offers (its cells
  lower-cased and trimmed, blank and null cells left out), the run fails before any row
  is read, with a ValueError whose message ends, after \<open>Missing:\<close>, with the bracketed
  list of the quoted names of exactly the required columns that are missing, all of
  them and in the order of the configuration; so that part of the message holds the
  quoted name of every missing required column.
\<close>

theorem missing_columns_all_named:
  assumes "load_workbook w p = Inr (headers # rows)"
    and "c \<in> set (REQUIRED_COLUMNS st)" and "c \<notin> header_names rt headers"
  shows "\<exists>listing.
           ingest st rt w p =
             (Inl (ValueError (''Excel must contain columns: '' @ repr_tuple (REQUIRED_COLUMNS st)
                                 @ ''. Missing: '' @ listing)), w)
         \<and> listing =
             ''['' @ join '', ''
                       (map repr_str
                          (filter (\<lambda>m. m \<notin> header_names rt headers) (REQUIRED_COLUMNS st)))
                  @ '']''
         \<and> (\<forall>m\<in>set (REQUIRED_COLUMNS st).
               m \<notin> header_names rt headers \<longrightarrow> sublist (repr_str m) listing)"
proof -
  let ?missing = "missing_columns st (header_map rt headers)"
  have eq: "?missing = filter (\<lambda>m. m \<notin> header_names rt headers) (REQUIRED_COLUMNS st)"
    by (simp add: missing_columns_def header_map_None)
  then have mem: "m \<in> set ?missing \<longleftrightarrow>
      m \<in> set (REQUIRED_COLUMNS st) \<and> m \<notin> header_names rt headers" for m
    by simp
  then have ne: "?missing \<noteq> []" using assms(2,3) by fastforce
  have run: "ingest st rt w p =
      (Inl (ValueError (''Excel must contain columns: '' @ repr_tuple (REQUIRED_COLUMNS st)
                          @ ''. Missing: '' @ repr_list ?missing)), w)"
    using assms(1) ne by (simp add: ingest_def Let_def missing_message_def)
  have lst: "repr_list ?missing =
      ''['' @ join '', ''
                (map repr_str
                   (filter (\<lambda>m. m \<notin> header_names rt headers) (REQUIRED_COLUMNS st)))
           @ '']''"
    unfolding eq by (simp add: repr_list_def)
  have "\<forall>m\<in>set (REQUIRED_COLUMNS st).
      m \<notin> header_names rt headers \<longrightarrow> sublist (repr_str m) (repr_list ?missing)"
    using mem sublist_repr_list by blast
  with run lst show ?thesis by blast
qed

theorem missing_columns_all_named_witness:
  "load_workbook w_header_only ''f.xlsx''
     = Inr ([CStr '' Name '', CNone, CStr ''  ''] # [[CStr ''Ann'']])
   \<and> ''email'' \<in> set (REQUIRED_COLUMNS example_settings)
   \<and> ''email'' \<notin> header_names example_rt [CStr '' Name '', CNone, CStr ''  '']
   \<and> ingest example_settings example_rt w_header_only ''f.xlsx'' =
       (Inl (ValueError
          (''Excel must contain columns: ('' @ quoted ''name'' @ '', '' @ quoted ''email''
             @ '', '' @ quoted ''age'' @ ''). Missing: [''
             @ quoted ''email'' @ '', '' @ quoted ''age'' @ '']'')), w_header_only)
   \<and> sublist (quoted ''email'') (''['' @ quoted ''email'' @ '', '' @ quoted ''age'' @ '']'')
   \<and> sublist (quoted ''age'') (''['' @ quoted ''email'' @ '', '' @ quoted ''age'' @ '']'')"
proof -
  let ?h = "[CStr '' Name '', CNone, CStr ''  '']"
  have l: "load_workbook w_header_only ''f.xlsx'' = Inr (?h # [[CStr ''Ann'']])"
    by (simp add: load_workbook_def w_header_only_def example_world_def)
  have r: "REQUIRED_COLUMNS example_settings = [''name'', ''email'', ''age'']"
    by (simp add: example_settings_def)
  have hn: "header_names example_rt ?h = {''name''}"
    by code_simp
  have q: "repr_str ''email'' = quoted ''email''" "repr_str ''age'' = quoted ''age''"
    "repr_tuple [''name'', ''email'', ''age'']
       = ''('' @ quoted ''name'' @ '', '' @ quoted ''email'' @ '', '' @ quoted ''age'' @ '')''"
    by (code_simp, code_simp, code_simp)
  have f: "filter (\<lambda>m. m \<notin> header_names example_rt ?h) [''name'', ''email'', ''age'']
      = [''email'', ''age'']"
    unfolding hn by simp
  have e: "''email'' \<notin> header_names example_rt ?h" unfolding hn by simp
  from missing_columns_all_named[OF l, of "''email''" example_settings example_rt] e
  obtain listing where a:
    "ingest example_settings example_rt w_header_only ''f.xlsx'' =
       (Inl (ValueError (''Excel must contain columns: ''
          @ repr_tuple (REQUIRED_COLUMNS example_settings) @ ''. Missing: '' @ listing)),
        w_header_only)"
    "listing = ''['' @ join '', '' (map repr_str
        (filter (\<lambda>m. m \<notin> header_names example_rt ?h) (REQUIRED_COLUMNS example_settings)))
        @ '']''"
    "\<forall>m\<in>set (REQUIRED_COLUMNS example_settings).
       m \<notin> header_names example_rt ?h \<longrightarrow> sublist (repr_str m) listing"
    unfolding r by auto
  from a(2) have lst: "listing = ''['' @ quoted ''email'' @ '', '' @ quoted ''age'' @ '']''"
    unfolding r f by (simp add: q)
  from a(3) have s: "sublist (quoted ''email'') listing" "sublist (quoted ''age'') listing"
    unfolding r hn by (simp_all add: q)
  from a(1) have run: "ingest example_settings example_rt w_header_only ''f.xlsx'' =
       (Inl (ValueError
          (''Excel must contain columns: ('' @ quoted ''name'' @ '', '' @ quoted ''email''
             @ '', '' @ quoted ''age'' @ ''). Missing: [''
             @ quoted ''email'' @ '', '' @ quoted ''age'' @ '']'')), w_header_only)"
    unfolding r q(3) lst by simp
  from l r e run s show ?thesis unfolding lst by simp
qed

section \<open>Ingestion Engine: the row loop\<close>

lemma committed_Nil: "committed w [] = w"
  by (simp add: committed_def)

lemma committed_append: "committed (committed w as) bs = committed w (as @ bs)"
  by (simp add: committed_def)

lemma bulk_insert_users_cases:
  "bulk_insert_users w b = (Inr (), committed w [b]) \<or>
   (\<exists>m. bulk_insert_users w b = (Inl (StorageError m), w))"
  by (auto simp: bulk_insert_users_def committed_def split: option.splits)

lemma valid_users_Cons:
  "valid_users rt cm (row # rows) =
     (case normalize_row rt row cm of
        Inl e \<Rightarrow> []
      | Inr u \<Rightarrow> if blank u then [] else [u]) @ valid_users rt cm rows"
  by (simp add: valid_users_def normalized_def split: sum.splits)

lemma ingest_rows_Cons:
  "normalize_row rt row cm = Inr u \<Longrightarrow>
   ingest_rows st rt cm (row # rows) batch n w =
     (if blank u then ingest_rows st rt cm rows batch n w
      else if int (length (batch @ [u])) \<ge> EXCEL_CHUNK_SIZE st
        then (case bulk_insert_users w (batch @ [u]) of
                (Inl e, w') \<Rightarrow> (Inl e, w')
              | (Inr _, w') \<Rightarrow>
                  ingest_rows st rt cm rows [] (n + int (length (batch @ [u]))) w')
        else ingest_rows st rt cm rows (batch @ [u]) n w)"
  by (simp add: blank_def Let_def)

lemma ingest_rows_spec:
  assumes "ingest_rows st rt cm rows batch n w = (r, w')"
    and "int (length batch) < max 1 (EXCEL_CHUNK_SIZE st)"
  shows "\<exists>css. w' = committed w css
      \<and> (\<forall>b\<in>set css. int (length b) = max 1 (EXCEL_CHUNK_SIZE st))
      \<and> prefix (concat css) (batch @ valid_users rt cm rows)
      \<and> (\<forall>batch' n'. r = Inr (batch', n') \<longrightarrow>
            concat css @ batch' = batch @ valid_users rt cm rows
          \<and> int (length batch') < max 1 (EXCEL_CHUNK_SIZE st)
          \<and> n' = n + int (length (concat css))
          \<and> (\<forall>row\<in>set rows. \<exists>u. normalize_row rt row cm = Inr u))"
  using assms
proof (induction rows arbitrary: batch n w)
  case Nil
  then show ?case
    by (intro exI[of _ "[]"]) (auto simp: committed_Nil valid_users_def normalized_def)
next
  case (Cons row rows)
  show ?case
  proof (cases "normalize_row rt row cm")
    case (Inl e)
    with Cons.prems show ?thesis
      by (intro exI[of _ "[]"]) (auto simp: committed_Nil)
  next
    case (Inr u)
    show ?thesis
    proof (cases "blank u")
      case True
      with Cons.prems have "ingest_rows st rt cm rows batch n w = (r, w')"
        by (simp add: ingest_rows_Cons[OF Inr] del: ingest_rows.simps)
      from Cons.IH[OF this Cons.prems(2)] obtain css where
        "w' = committed w css"
        "\<forall>b\<in>set css. int (length b) = max 1 (EXCEL_CHUNK_SIZE st)"
        "prefix (concat css) (batch @ valid_users rt cm rows)"
        "\<forall>batch' n'. r = Inr (batch', n') \<longrightarrow>
            concat css @ batch' = batch @ valid_users rt cm rows
          \<and> int (length batch') < max 1 (EXCEL_CHUNK_SIZE st)
          \<and> n' = n + int (length (concat css))
          \<and> (\<forall>row\<in>set rows. \<exists>u. normalize_row rt row cm = Inr u)" by blast
      then show ?thesis using True Inr
        by (intro exI[of _ css]) (simp add: valid_users_Cons)
    next
      case False
      let ?b = "batch @ [u]"
      have vu: "valid_users rt cm (row # rows) = u # valid_users rt cm rows"
        using False Inr by (simp add: valid_users_Cons)
      show ?thesis
      proof (cases "int (length ?b) \<ge> EXCEL_CHUNK_SIZE st")
        case full: True
        have len: "int (length ?b) = max 1 (EXCEL_CHUNK_SIZE st)"
          using full Cons.prems(2) by auto
        from bulk_insert_users_cases[of w ?b] show ?thesis
        proof
          assume ok: "bulk_insert_users w ?b = (Inr (), committed w [?b])"
          with False full Cons.prems have run:
            "ingest_rows st rt cm rows [] (n + int (length ?b)) (committed w [?b]) = (r, w')"
            by (simp add: ingest_rows_Cons[OF Inr] del: ingest_rows.simps)
          have "int (length ([] :: user list)) < max 1 (EXCEL_CHUNK_SIZE st)" by simp
          from Cons.IH[OF run this] obtain css where c:
            "w' = committed (committed w [?b]) css"
            "\<forall>b\<in>set css. int (length b) = max 1 (EXCEL_CHUNK_SIZE st)"
            "prefix (concat css) ([] @ valid_users rt cm rows)"
            "\<forall>batch' n'. r = Inr (batch', n') \<longrightarrow>
                concat css @ batch' = [] @ valid_users rt cm rows
              \<and> int (length batch') < max 1 (EXCEL_CHUNK_SIZE st)
              \<and> n' = (n + int (length ?b)) + int (length (concat css))
              \<and> (\<forall>row\<in>set rows. \<exists>u. normalize_row rt row cm = Inr u)" by blast
          show ?thesis
            using c len Inr
            by (intro exI[of _ "?b # css"]) (auto simp: committed_append vu)
        next
          assume "\<exists>m. bulk_insert_users w ?b = (Inl (StorageError m), w)"
          then obtain m where "bulk_insert_users w ?b = (Inl (StorageError m), w)" ..
          with False full Cons.prems have "r = Inl (StorageError m)" "w' = w"
            by (auto simp add: ingest_rows_Cons[OF Inr] simp del: ingest_rows.simps)
          then show ?thesis
            by (intro exI[of _ "[]"]) (simp add: committed_Nil)
        qed
      next
        case notfull: False
        with False Cons.prems have run: "ingest_rows st rt cm rows ?b n w = (r, w')"
          by (simp add: ingest_rows_Cons[OF Inr] del: ingest_rows.simps)
        have "int (length ?b) < max 1 (EXCEL_CHUNK_SIZE st)" using notfull by simp
        from Cons.IH[OF run this] obtain css where c:
          "w' = committed w css"
          "\<forall>b\<in>set css. int (length b) = max 1 (EXCEL_CHUNK_SIZE st)"
          "prefix (concat css) (?b @ valid_users rt cm rows)"
          "\<forall>batch' n'. r = Inr (batch', n') \<longrightarrow>
              concat css @ batch' = ?b @ valid_users rt cm rows
            \<and> int (length batch') < max 1 (EXCEL_CHUNK_SIZE st)
            \<and> n' = n + int (length (concat css))
            \<and> (\<forall>row\<in>set rows. \<exists>u. normalize_row rt row cm = Inr u)" by blast
        then show ?thesis using Inr
          by (intro exI[of _ css]) (simp add: vu)
      qed
    qed
  qed
qed

lemma ingest_resolved:
  assumes "load_workbook w p = Inr (headers # rows)"
    and "missing_columns st (header_map rt headers) = []"
    and "column_map (header_map rt headers) = Inr cm"
    and "ingest st rt w p = (r, w')"
  shows "\<exists>new. w' = committed w new
      \<and> (\<forall>b\<in>set (butlast new). int (length b) = max 1 (EXCEL_CHUNK_SIZE st))
      \<and> (\<forall>b\<in>set new. b \<noteq> [] \<and> int (length b) \<le> max 1 (EXCEL_CHUNK_SIZE st))
      \<and> prefix (concat new) (valid_users rt cm rows)
      \<and> (\<forall>n. r = Inr n \<longrightarrow> concat new = valid_users rt cm rows
                \<and> n = int (length (valid_users rt cm rows)))"
proof -
  obtain r0 w0 where loop: "ingest_rows st rt cm rows [] 0 w = (r0, w0)"
    by (cases "ingest_rows st rt cm rows [] 0 w") auto
  have "int (length ([] :: user list)) < max 1 (EXCEL_CHUNK_SIZE st)" by simp
  from ingest_rows_spec[OF loop this] obtain css where c:
    "w0 = committed w css"
    "\<forall>b\<in>set css. int (length b) = max 1 (EXCEL_CHUNK_SIZE st)"
    "prefix (concat css) (valid_users rt cm rows)"
    "\<forall>batch' n'. r0 = Inr (batch', n') \<longrightarrow>
        concat css @ batch' = valid_users rt cm rows
      \<and> int (length batch') < max 1 (EXCEL_CHUNK_SIZE st)
      \<and> n' = int (length (concat css))" by auto
  have nonempty: "\<forall>b\<in>set css. b \<noteq> []" using c(2) by fastforce
  show ?thesis
  proof (cases r0)
    case (Inl e)
    with assms loop have "r = Inl e" "w' = w0"
      by (simp_all add: ingest_def)
    with c nonempty show ?thesis
      by (intro exI[of _ css]) (auto dest: in_set_butlastD)
  next
    case (Inr bn)
    obtain batch' n' where bn: "bn = (batch', n')" by (cases bn)
    from c(4) Inr bn have d: "concat css @ batch' = valid_users rt cm rows"
      "int (length batch') < max 1 (EXCEL_CHUNK_SIZE st)" "n' = int (length (concat css))"
      by auto
    show ?thesis
    proof (cases "batch' = []")
      case True
      with assms loop Inr bn have "r = Inr n'" "w' = w0"
        by (simp_all add: ingest_def)
      with c d True nonempty show ?thesis
        by (intro exI[of _ css]) (auto dest: in_set_butlastD)
    next
      case False
      from bulk_insert_users_cases[of w0 batch'] show ?thesis
      proof
        assume "bulk_insert_users w0 batch' = (Inr (), committed w0 [batch'])"
        with assms loop Inr bn False have
          "r = Inr (n' + int (length batch'))" "w' = committed w0 [batch']"
          by (simp_all add: ingest_def)
        moreover have "length (valid_users rt cm rows) = length (concat css) + length batch'"
          using d(1) by (metis length_append)
        ultimately show ?thesis using c d False nonempty
          by (intro exI[of _ "css @ [batch']"]) (auto simp: committed_append)
      next
        assume "\<exists>m. bulk_insert_users w0 batch' = (Inl (StorageError m), w0)"
        then obtain m where "bulk_insert_users w0 batch' = (Inl (StorageError m), w0)" ..
        with assms loop Inr bn False have "r = Inl (StorageError m)" "w' = w0"
          by (simp_all add: ingest_def)
        with c nonempty show ?thesis
          by (intro exI[of _ css]) (auto dest: in_set_butlastD)
      qed
    qed
  qed
qed

lemma ingest_unresolved:
  assumes "ingest st rt w p = (r, w')"
  shows "(\<exists>headers rows cm. load_workbook w p = Inr (headers # rows)
            \<and> missing_columns st (header_map rt headers) = []
            \<and> column_map (header_map rt headers) = Inr cm)
         \<or> (w' = w \<and> (\<exists>e. r = Inl e))"
  using assms
  by (auto simp: ingest_def Let_def split: sum.splits list.splits if_splits)

lemma not_blank_valid: "u \<in> set (valid_users rt cm rows) \<Longrightarrow> \<not> blank u"
  by (simp add: valid_users_def)

lemma ingest_frame:
  assumes "ingest st rt w p = (r, w')"
  shows "\<exists>new. w' = committed w new
      \<and> (\<forall>b\<in>set (butlast new). int (length b) = max 1 (EXCEL_CHUNK_SIZE st))
      \<and> (\<forall>u\<in>set (concat new). \<not> blank u)
      \<and> (\<forall>n. r = Inr n \<longrightarrow> n = int (length (concat new)))"
proof -
  from ingest_unresolved[OF assms] show ?thesis
  proof
    assume "\<exists>headers rows cm. load_workbook w p = Inr (headers # rows)
            \<and> missing_columns st (header_map rt headers) = []
            \<and> column_map (header_map rt headers) = Inr cm"
    then obtain headers rows cm where h: "load_workbook w p = Inr (headers # rows)"
      "missing_columns st (header_map rt headers) = []"
      "column_map (header_map rt headers) = Inr cm" by blast
    from ingest_resolved[OF h assms] obtain new where n:
      "w' = committed w new"
      "\<forall>b\<in>set (butlast new). int (length b) = max 1 (EXCEL_CHUNK_SIZE st)"
      "prefix (concat new) (valid_users rt cm rows)"
      "\<forall>n. r = Inr n \<longrightarrow> concat new = valid_users rt cm rows
                \<and> n = int (length (valid_users rt cm rows))" by blast
    from n(3) have "set (concat new) \<subseteq> set (valid_users rt cm rows)"
      by (rule set_mono_prefix)
    then have "\<forall>u\<in>set (concat new). \<not> blank u" using not_blank_valid by blast
    with n show ?thesis by (intro exI[of _ new]) auto
  next
    assume "w' = w \<and> (\<exists>e. r = Inl e)"
    then show ?thesis by (intro exI[of _ "[]"]) (auto simp: committed_Nil)
  qed
qed

lemma length_concat_const:
  "\<forall>b\<in>set css. length b = c \<Longrightarrow> length (concat css) = c * length css"
  by (induction css) auto

lemma chunk_count:
  assumes c: "1 \<le> (c::nat)"
    and full: "\<forall>b\<in>set (butlast new). length b = c"
    and part: "\<forall>b\<in>set new. b \<noteq> [] \<and> length b \<le> c"
  shows "length new = (length (concat new) + c - 1) div c
       \<and> (new \<noteq> [] \<longrightarrow>
            length (last new) =
              (if length (concat new) mod c = 0 then c else length (concat new) mod c))"
proof (cases new rule: rev_cases)
  case Nil
  then show ?thesis using c by simp
next
  case (snoc xs l)
  let ?k = "length xs" and ?l = "length l"
  from snoc full have "\<forall>b\<in>set xs. length b = c" by simp
  then have n: "length (concat new) = c * ?k + ?l"
    using snoc by (simp add: length_concat_const)
  from snoc part have l: "1 \<le> ?l" "?l \<le> c"
    by (auto simp: Suc_le_eq)
  define m where "m = ?l + c - 1"
  have m1: "m div c = 1"
    unfolding m_def using l c by (intro div_nat_eqI) auto
  have "length (concat new) + c - 1 = c * ?k + m" unfolding m_def using l n by simp
  then have "(length (concat new) + c - 1) div c = ?k + m div c"
    using c by (simp only: div_mult_self4) 
  then have cnt: "(length (concat new) + c - 1) div c = ?k + 1"
    using m1 by simp
  have md: "length (concat new) mod c = ?l mod c" using n by simp
  have "?l = (if ?l mod c = 0 then c else ?l mod c)"
  proof (cases "?l = c")
    case True
    then show ?thesis by simp
  next
    case False
    with l have "?l < c" "0 < ?l" by linarith+
    then show ?thesis by simp
  qed
  then have lst: "length (last new) =
      (if length (concat new) mod c = 0 then c else length (concat new) mod c)"
    unfolding md using snoc by simp
  have "length new = ?k + 1" using snoc by simp
  with cnt lst show ?thesis by (simp only:) simp
qed

lemmas ledger_ops = set_upload_job_running_def set_upload_job_completed_def
  set_upload_job_failed_def mark_upload_file_deleted_def utcnow_def update_job_def

lemma find_job_update:
  "\<forall>j. job_id (f j) = job_id j \<Longrightarrow>
   find (\<lambda>j. job_id j = a) (map (\<lambda>j. if job_id j = jid then f j else j) js) =
     (if a = jid then map_option f (find (\<lambda>j. job_id j = a) js)
      else find (\<lambda>j. job_id j = a) js)"
  by (induction js) auto

lemma get_set_running:
  "get_upload_job (set_upload_job_running w jid) a =
     (if a = jid
      then map_option (\<lambda>j. j\<lparr>status := ''running'', started_at := Some (clock w (ticks w)),
                               error := None\<rparr>) (get_upload_job w a)
      else get_upload_job w a)"
  unfolding get_upload_job_def ledger_ops by (simp add: find_job_update)

lemma get_set_completed:
  "get_upload_job (set_upload_job_completed w jid n) a =
     (if a = jid
      then map_option (\<lambda>j. j\<lparr>status := ''completed'', inserted_rows := n,
                               completed_at := Some (clock w (ticks w)), error := None\<rparr>)
             (get_upload_job w a)
      else get_upload_job w a)"
  unfolding get_upload_job_def ledger_ops by (simp add: find_job_update)

lemma get_set_failed:
  "get_upload_job (set_upload_job_failed w jid err) a =
     (if a = jid
      then map_option (\<lambda>j. j\<lparr>status := ''failed'', error := Some err,
                               completed_at := Some (clock w (ticks w))\<rparr>)
             (get_upload_job w a)
      else get_upload_job w a)"
  unfolding get_upload_job_def ledger_ops by (simp add: find_job_update)

lemma get_mark_deleted:
  "get_upload_job (mark_upload_file_deleted w jid) a =
     (if a = jid
      then map_option (\<lambda>j. j\<lparr>file_deleted_at := Some (clock w (ticks w))\<rparr>)
             (get_upload_job w a)
      else get_upload_job w a)"
  unfolding get_upload_job_def ledger_ops by (simp add: find_job_update)

lemma get_committed: "get_upload_job (committed w css) a = get_upload_job w a"
  by (simp add: get_upload_job_def committed_def)

lemma running_frame:
  "users (set_upload_job_running w jid) = users w"
  "bulk_writes (set_upload_job_running w jid) = bulk_writes w"
  "files (set_upload_job_running w jid) = files w"
  by (simp_all add: ledger_ops)

lemma completed_frame:
  "users (set_upload_job_completed w jid n) = users w"
  "bulk_writes (set_upload_job_completed w jid n) = bulk_writes w"
  "files (set_upload_job_completed w jid n) = files w"
  by (simp_all add: ledger_ops)

lemma failed_frame:
  "users (set_upload_job_failed w jid e) = users w"
  "bulk_writes (set_upload_job_failed w jid e) = bulk_writes w"
  "files (set_upload_job_failed w jid e) = files w"
  by (simp_all add: ledger_ops)

lemma committed_frame:
  "users (committed w css) = users w @ concat css"
  "bulk_writes (committed w css) = bulk_writes w @ css"
  "files (committed w css) = files w"
  "ticks (committed w css) = ticks w"
  "clock (committed w css) = clock w"
  by (simp_all add: committed_def)

lemma load_workbook_running:
  "load_workbook (set_upload_job_running w jid) p = load_workbook w p"
  by (simp add: load_workbook_def running_frame)

lemma after_failure_frame:
  "users (after_failure w jid e) = users w"
  "bulk_writes (after_failure w jid e) = bulk_writes w"
  "files (after_failure w jid e) = files w"
  by (cases e; simp add: after_failure_def failed_frame)+

lemma process_excel_job_world:
  "snd (process_excel_job st rt w jid p) =
     (case ingest st rt (set_upload_job_running w jid) p of
        (Inr n, w') \<Rightarrow> set_upload_job_completed w' jid n
      | (Inl e, w') \<Rightarrow> after_failure w' jid e)"
  by (simp add: process_excel_job_def after_failure_def split: prod.splits sum.splits py_error.splits)

lemma after_failure_status:
  assumes "get_upload_job (after_failure (committed (set_upload_job_running w jid) new) jid e) jid
             = Some j'"
  shows "status j' = ''failed'' \<or> status j' = ''running''"
proof (cases "\<exists>m. e = StorageError m")
  case True
  then have "after_failure (committed (set_upload_job_running w jid) new) jid e
      = committed (set_upload_job_running w jid) new"
    by (auto simp: after_failure_def)
  with assms show ?thesis by (auto simp: get_committed get_set_running)
next
  case False
  then have "after_failure (committed (set_upload_job_running w jid) new) jid e
      = set_upload_job_failed (committed (set_upload_job_running w jid) new) jid (str_exc e)"
    by (cases e) (auto simp: after_failure_def)
  with assms show ?thesis by (auto simp: get_set_failed)
qed

text \<open>The two ways a run ends.\<close>

lemma process_excel_job_cases:
  obtains (completed) n new where
      "ingest st rt (set_upload_job_running w jid) p =
         (Inr n, committed (set_upload_job_running w jid) new)"
      "snd (process_excel_job st rt w jid p) =
         set_upload_job_completed (committed (set_upload_job_running w jid) new) jid n"
  | (failed) e new where
      "ingest st rt (set_upload_job_running w jid) p =
         (Inl e, committed (set_upload_job_running w jid) new)"
      "snd (process_excel_job st rt w jid p) =
         after_failure (committed (set_upload_job_running w jid) new) jid e"
proof -
  let ?w1 = "set_upload_job_running w jid"
  obtain r w2 where run: "ingest st rt ?w1 p = (r, w2)"
    by (cases "ingest st rt ?w1 p") auto
  from ingest_frame[OF run] obtain new where "w2 = committed ?w1 new" by blast
  with run show ?thesis
    by (cases r) (auto simp: process_excel_job_world intro: completed failed)
qed

section \<open>Ingestion Engine: properties of a run\<close>

text \<open>
  C5. For a file whose data rows give \<open>N\<close> records that are not blank and a chunk size
  \<open>C \<ge> 1\<close>, a run that ends with the job completed makes exactly \<open>\<lceil>N/C\<rceil>\<close> bulk
  writes, which together carry those records in order; every write but the last carries
  \<open>C\<close> records, the last carries \<open>N mod C\<close> (or \<open>C\<close> when \<open>C\<close> divides \<open>N\<close>), and
  the job's \<open>inserted_rows\<close> is \<open>N\<close>.
\<close>

theorem chunking_of_completed_run:
  assumes "load_workbook w p = Inr (headers # rows)"
    and "column_map (header_map rt headers) = Inr cm"
    and "1 \<le> EXCEL_CHUNK_SIZE st"
    and "get_upload_job (snd (process_excel_job st rt w jid p)) jid = Some j'"
    and "status j' = ''completed''"
  shows "\<exists>new. bulk_writes (snd (process_excel_job st rt w jid p)) = bulk_writes w @ new
      \<and> concat new = valid_users rt cm rows
      \<and> length new =
          (length (valid_users rt cm rows) + nat (EXCEL_CHUNK_SIZE st) - 1)
            div nat (EXCEL_CHUNK_SIZE st)
      \<and> (\<forall>b\<in>set (butlast new). length b = nat (EXCEL_CHUNK_SIZE st))
      \<and> (new \<noteq> [] \<longrightarrow>
            length (last new) =
              (if length (valid_users rt cm rows) mod nat (EXCEL_CHUNK_SIZE st) = 0
               then nat (EXCEL_CHUNK_SIZE st)
               else length (valid_users rt cm rows) mod nat (EXCEL_CHUNK_SIZE st)))
      \<and> inserted_rows j' = int (length (valid_users rt cm rows))"
proof (cases rule: process_excel_job_cases[of st rt w jid p])
  case (failed e new)
  from assms(4) have "status j' = ''failed'' \<or> status j' = ''running''"
    unfolding failed(2) by (rule after_failure_status)
  with assms(5) show ?thesis by simp
next
  case (completed n new0)
  let ?w1 = "set_upload_job_running w jid"
  let ?C = "nat (EXCEL_CHUNK_SIZE st)"
  have mx: "max 1 (EXCEL_CHUNK_SIZE st) = int ?C" using assms(3) by simp
  have lw: "load_workbook ?w1 p = Inr (headers # rows)"
    using assms(1) by (simp add: load_workbook_running)
  from ingest_unresolved[OF completed(1)] lw assms(2)
  have miss: "missing_columns st (header_map rt headers) = []" by auto
  from ingest_resolved[OF lw miss assms(2) completed(1)] obtain new where n:
    "committed ?w1 new0 = committed ?w1 new"
    "\<forall>b\<in>set (butlast new). int (length b) = max 1 (EXCEL_CHUNK_SIZE st)"
    "\<forall>b\<in>set new. b \<noteq> [] \<and> int (length b) \<le> max 1 (EXCEL_CHUNK_SIZE st)"
    "concat new = valid_users rt cm rows"
    "n = int (length (valid_users rt cm rows))" by blast
  from n(1) have "bulk_writes (committed ?w1 new0) = bulk_writes (committed ?w1 new)"
    by simp
  then have eq: "new0 = new" by (simp add: committed_frame)
  have bw: "bulk_writes (snd (process_excel_job st rt w jid p)) = bulk_writes w @ new"
    using completed(2) eq by (simp add: completed_frame committed_frame running_frame)
  have full: "\<forall>b\<in>set (butlast new). length b = ?C"
    using n(2) by (simp only: mx of_nat_eq_iff)
  have part: "\<forall>b\<in>set new. b \<noteq> [] \<and> length b \<le> ?C"
    using n(3) by (simp only: mx of_nat_le_iff)
  have "1 \<le> ?C" using assms(3) by simp
  from chunk_count[OF this full part] have cc:
    "length new = (length (concat new) + ?C - 1) div ?C"
    "new \<noteq> [] \<longrightarrow> length (last new) =
       (if length (concat new) mod ?C = 0 then ?C else length (concat new) mod ?C)"
    by blast+
  have ir: "inserted_rows j' = int (length (valid_users rt cm rows))"
    using assms(4) completed(2) n(5)
    by (auto simp: get_set_completed)
  show ?thesis
    using bw n(4) cc full ir by (intro exI[of _ new]) (simp only: simp_thms)
qed

lemma people_sheet_headers:
  "lower (strip ''Name'') = ''name''"
  "lower (strip '' Email'') = ''email''"
  "lower (strip ''AGE'') = ''age''"
  "strip ''Name'' \<noteq> []"
  "strip '' Email'' \<noteq> []"
  "strip ''AGE'' \<noteq> []"
  by (code_simp, code_simp, code_simp, code_simp, code_simp, code_simp)

lemma people_header_map: "header_map example_rt [CStr ''Name'', CStr '' Email'', CStr ''AGE'']
   = [''name'' \<mapsto> 0, ''email'' \<mapsto> 1, ''age'' \<mapsto> 2]"
  unfolding header_map_def
  by (simp add: people_sheet_headers) (simp only: numeral_2_eq_2)

lemma people_sheet_column_map:
  "column_map (header_map example_rt [CStr ''Name'', CStr '' Email'', CStr ''AGE'']) = Inr cm_people"
  unfolding people_header_map by (simp add: column_map_def cm_people_def)

theorem chunking_of_completed_run_witness:
  "load_workbook w_people ''f.xlsx'' = Inr (hd people_sheet # tl people_sheet)
   \<and> column_map (header_map example_rt (hd people_sheet)) = Inr cm_people
   \<and> 1 \<le> EXCEL_CHUNK_SIZE example_settings
   \<and> map status (upload_jobs (snd (process_excel_job example_settings example_rt w_people ''j1'' ''f.xlsx'')))
        = [''completed'']
   \<and> (\<exists>new. bulk_writes (snd (process_excel_job example_settings example_rt w_people ''j1'' ''f.xlsx''))
              = bulk_writes w_people @ new
            \<and> length new = 3
            \<and> (\<forall>b\<in>set (butlast new). length b = 2)
            \<and> length (last new) = 1)
   \<and> map inserted_rows
        (upload_jobs (snd (process_excel_job example_settings example_rt w_people ''j1'' ''f.xlsx''))) = [5]"
proof -
  let ?w' = "snd (process_excel_job example_settings example_rt w_people ''j1'' ''f.xlsx'')"
  have h1: "load_workbook w_people ''f.xlsx'' = Inr (hd people_sheet # tl people_sheet)" by code_simp
  have h2: "column_map (header_map example_rt (hd people_sheet)) = Inr cm_people"
    using people_sheet_column_map by (simp add: people_sheet_def)
  have h3: "1 \<le> EXCEL_CHUNK_SIZE example_settings" by (simp add: example_settings_def)
  have js: "upload_jobs ?w' =
      [(example_job ''j1'' ''f.xlsx'' ''completed'')
         \<lparr>inserted_rows := 5, started_at := Some 1000, completed_at := Some 1001\<rparr>]"
    by code_simp
  have h4: "get_upload_job ?w' ''j1'' =
      Some ((example_job ''j1'' ''f.xlsx'' ''completed'')
         \<lparr>inserted_rows := 5, started_at := Some 1000, completed_at := Some 1001\<rparr>)"
    by (simp add: get_upload_job_def js example_job_def)
  have h5: "status ((example_job ''j1'' ''f.xlsx'' ''completed'')
         \<lparr>inserted_rows := 5, started_at := Some 1000, completed_at := Some 1001\<rparr>) = ''completed''"
    by (simp add: example_job_def)
  have n: "length (valid_users example_rt cm_people (tl people_sheet)) = 5" by code_simp
  have c: "nat (EXCEL_CHUNK_SIZE example_settings) = 2" by (simp add: example_settings_def)
  from chunking_of_completed_run[OF h1 h2 h3 h4 h5]
  obtain new where
    "bulk_writes ?w' = bulk_writes w_people @ new"
    "length new = (5 + 2 - 1) div (2::nat)"
    "\<forall>b\<in>set (butlast new). length b = 2"
    "new \<noteq> [] \<longrightarrow> length (last new) = (if 5 mod 2 = (0::nat) then 2 else 5 mod 2)"
    unfolding n c by blast
  then have "\<exists>new. bulk_writes ?w' = bulk_writes w_people @ new \<and> length new = 3
            \<and> (\<forall>b\<in>set (butlast new). length b = 2) \<and> length (last new) = 1"
    by (intro exI[of _ new]) auto
  then show ?thesis using h1 h2 h3 js by (simp add: example_job_def)
qed

lemma committed_inj: "committed w a = committed w b \<Longrightarrow> a = b"
proof -
  assume "committed w a = committed w b"
  then have "bulk_writes (committed w a) = bulk_writes (committed w b)" by simp
  then show ?thesis by (simp add: committed_frame)
qed

lemma process_excel_job_resolved:
  assumes "load_workbook w p = Inr (headers # rows)"
    and "column_map (header_map rt headers) = Inr cm"
  obtains r new where
    "snd (process_excel_job st rt w jid p) =
       (case r of
          Inr n \<Rightarrow> set_upload_job_completed (committed (set_upload_job_running w jid) new) jid n
        | Inl e \<Rightarrow> after_failure (committed (set_upload_job_running w jid) new) jid e)"
    "prefix (concat new) (valid_users rt cm rows)"
    "\<forall>n. r = Inr n \<longrightarrow> n = int (length (valid_users rt cm rows))"
proof -
  let ?w1 = "set_upload_job_running w jid"
  obtain r w2 where run: "ingest st rt ?w1 p = (r, w2)"
    by (cases "ingest st rt ?w1 p") auto
  have lw: "load_workbook ?w1 p = Inr (headers # rows)"
    using assms(1) by (simp add: load_workbook_running)
  have pr: "snd (process_excel_job st rt w jid p) =
       (case r of Inr n \<Rightarrow> set_upload_job_completed w2 jid n
        | Inl e \<Rightarrow> after_failure w2 jid e)"
    using run by (simp add: process_excel_job_world split: sum.splits)
  from ingest_unresolved[OF run] show ?thesis
  proof
    assume "\<exists>headers rows cm. load_workbook ?w1 p = Inr (headers # rows)
            \<and> missing_columns st (header_map rt headers) = []
            \<and> column_map (header_map rt headers) = Inr cm"
    with lw have miss: "missing_columns st (header_map rt headers) = []" by auto
    from ingest_resolved[OF lw miss assms(2) run] obtain new where
      "w2 = committed ?w1 new" "prefix (concat new) (valid_users rt cm rows)"
      "\<forall>n. r = Inr n \<longrightarrow> n = int (length (valid_users rt cm rows))" by blast
    with pr that show ?thesis by blast
  next
    assume a: "w2 = ?w1 \<and> (\<exists>e. r = Inl e)"
    then have "w2 = committed ?w1 []" by (simp add: committed_Nil)
    moreover have "prefix (concat ([] :: user list list)) (valid_users rt cm rows)" by simp
    moreover have "\<forall>n. r = Inr n \<longrightarrow> n = int (length (valid_users rt cm rows))"
      using a by auto
    ultimately show ?thesis using pr that by blast
  qed
qed

text \<open>
  C7. The records a run hands to the bulk write are, in order, an initial part of the
  records of the data rows that are not blank: no blank record (empty name, empty email,
  age 0, which is also what an unparsable age gives) is ever written, and the
  \<open>inserted_rows\<close> of a completed job counts exactly the records that are not blank.
\<close>

theorem blank_rows_skipped:
  assumes "load_workbook w p = Inr (headers # rows)"
    and "column_map (header_map rt headers) = Inr cm"
  shows "\<exists>new. bulk_writes (snd (process_excel_job st rt w jid p)) = bulk_writes w @ new
      \<and> users (snd (process_excel_job st rt w jid p)) = users w @ concat new
      \<and> prefix (concat new) (filter (\<lambda>u. \<not> blank u) (normalized rt cm rows))
      \<and> (\<forall>u\<in>set (concat new). \<not> blank u)
      \<and> (\<forall>j'. get_upload_job (snd (process_excel_job st rt w jid p)) jid = Some j'
               \<and> status j' = ''completed'' \<longrightarrow>
               inserted_rows j' =
                 int (length (filter (\<lambda>u. \<not> blank u) (normalized rt cm rows))))"
proof -
  from process_excel_job_resolved[OF assms, of st jid] obtain r new where p:
    "snd (process_excel_job st rt w jid p) =
       (case r of
          Inr n \<Rightarrow> set_upload_job_completed (committed (set_upload_job_running w jid) new) jid n
        | Inl e \<Rightarrow> after_failure (committed (set_upload_job_running w jid) new) jid e)"
    "prefix (concat new) (valid_users rt cm rows)"
    "\<forall>n. r = Inr n \<longrightarrow> n = int (length (valid_users rt cm rows))" by blast
  have bw: "bulk_writes (snd (process_excel_job st rt w jid p)) = bulk_writes w @ new"
    "users (snd (process_excel_job st rt w jid p)) = users w @ concat new"
    using p(1)
    by (cases r; simp add: completed_frame after_failure_frame committed_frame running_frame)+
  from p(2) have "set (concat new) \<subseteq> set (valid_users rt cm rows)"
    by (rule set_mono_prefix)
  then have nb: "\<forall>u\<in>set (concat new). \<not> blank u" using not_blank_valid by blast
  have cnt: "inserted_rows j' = int (length (valid_users rt cm rows))"
    if "get_upload_job (snd (process_excel_job st rt w jid p)) jid = Some j'"
      and "status j' = ''completed''" for j'
  proof (cases r)
    case (Inl e)
    with that(1) p(1) have "status j' = ''failed'' \<or> status j' = ''running''"
      by (auto dest: after_failure_status)
    with that(2) show ?thesis by simp
  next
    case (Inr n)
    with that p(1,3) show ?thesis by (auto simp: get_set_completed)
  qed
  show ?thesis
    using bw p(2) nb cnt unfolding valid_users_def
    by (intro exI[of _ new]) blast
qed

lemma bulk_insert_users_ledger:
  "bulk_insert_users (w\<lparr>upload_jobs := J\<rparr>) b =
     (case bulk_insert_users w b of (r, w') \<Rightarrow> (r, w'\<lparr>upload_jobs := J\<rparr>))"
  by (simp add: bulk_insert_users_def split: option.splits)

lemma ingest_rows_ledger:
  "ingest_rows st rt cm rows batch n (w\<lparr>upload_jobs := J\<rparr>) =
     (case ingest_rows st rt cm rows batch n w of (r, w') \<Rightarrow> (r, w'\<lparr>upload_jobs := J\<rparr>))"
proof (induction rows arbitrary: batch n w)
  case Nil
  then show ?case by simp
next
  case (Cons row rows)
  show ?case
  proof (cases "normalize_row rt row cm")
    case (Inl e)
    then show ?thesis by simp
  next
    case (Inr u)
    show ?thesis
      unfolding ingest_rows_Cons[OF Inr]
      by (simp add: Cons.IH bulk_insert_users_ledger split: prod.splits sum.splits)
  qed
qed

lemma load_workbook_ledger: "load_workbook (w\<lparr>upload_jobs := J\<rparr>) p = load_workbook w p"
  by (simp add: load_workbook_def)

lemma ingest_ledger:
  "ingest st rt (w\<lparr>upload_jobs := J\<rparr>) p =
     (case ingest st rt w p of (r, w') \<Rightarrow> (r, w'\<lparr>upload_jobs := J\<rparr>))"
  unfolding ingest_def load_workbook_ledger
  by (simp add: ingest_rows_ledger bulk_insert_users_ledger Let_def
           split: sum.splits list.splits prod.splits)

lemma ingest_keeps_ledger:
  "ingest st rt w p = (r, w') \<Longrightarrow> upload_jobs w' = upload_jobs w"
  using ingest_frame[of st rt w p r w'] by (auto simp: committed_def)

lemma ingest_set_chunk_sizes:
  "ingest st rt (set_chunk_sizes g w) p =
     (case ingest st rt w p of (r, w') \<Rightarrow> (r, set_chunk_sizes g w'))"
proof -
  obtain r w' where run: "ingest st rt w p = (r, w')" by (cases "ingest st rt w p") auto
  from ingest_keeps_ledger[OF run] have "upload_jobs w' = upload_jobs w" .
  then show ?thesis
    unfolding set_chunk_sizes_def ingest_ledger run by simp
qed

lemma update_job_set_chunk_sizes:
  assumes "\<And>j c. f (j\<lparr>chunk_size := c\<rparr>) = (f j)\<lparr>chunk_size := c\<rparr>"
    and "\<And>j. job_id (f j) = job_id j"
  shows "update_job jid f (set_chunk_sizes g w) = set_chunk_sizes g (update_job jid f w)"
  unfolding update_job_def set_chunk_sizes_def
  by (simp add: assms comp_def cong: if_cong)

lemma utcnow_set_chunk_sizes:
  "utcnow (set_chunk_sizes g w) = (fst (utcnow w), set_chunk_sizes g (snd (utcnow w)))"
  by (simp add: utcnow_def set_chunk_sizes_def)

lemma running_set_chunk_sizes:
  "set_upload_job_running (set_chunk_sizes g w) jid
     = set_chunk_sizes g (set_upload_job_running w jid)"
  unfolding set_upload_job_running_def utcnow_set_chunk_sizes
  by (simp add: utcnow_def update_job_set_chunk_sizes)

lemma completed_set_chunk_sizes:
  "set_upload_job_completed (set_chunk_sizes g w) jid n
     = set_chunk_sizes g (set_upload_job_completed w jid n)"
  unfolding set_upload_job_completed_def utcnow_set_chunk_sizes
  by (simp add: utcnow_def update_job_set_chunk_sizes)

lemma failed_set_chunk_sizes:
  "set_upload_job_failed (set_chunk_sizes g w) jid e
     = set_chunk_sizes g (set_upload_job_failed w jid e)"
  unfolding set_upload_job_failed_def utcnow_set_chunk_sizes
  by (simp add: utcnow_def update_job_set_chunk_sizes)

lemma after_failure_set_chunk_sizes:
  "after_failure (set_chunk_sizes g w) jid e = set_chunk_sizes g (after_failure w jid e)"
  by (cases e) (simp_all add: after_failure_def failed_set_chunk_sizes)

lemma process_set_chunk_sizes:
  "snd (process_excel_job st rt (set_chunk_sizes g w) jid p)
     = set_chunk_sizes g (snd (process_excel_job st rt w jid p))"
  unfolding process_excel_job_world running_set_chunk_sizes ingest_set_chunk_sizes
  by (simp add: completed_set_chunk_sizes after_failure_set_chunk_sizes
        split: prod.splits sum.splits)

lemma process_batch_sizes:
  "\<exists>new. bulk_writes (snd (process_excel_job st rt w jid p)) = bulk_writes w @ new
      \<and> (\<forall>b\<in>set (butlast new). int (length b) = max 1 (EXCEL_CHUNK_SIZE st))"
proof -
  let ?w1 = "set_upload_job_running w jid"
  obtain r w2 where run: "ingest st rt ?w1 p = (r, w2)"
    by (cases "ingest st rt ?w1 p") auto
  from ingest_frame[OF run] obtain new where n: "w2 = committed ?w1 new"
    "\<forall>b\<in>set (butlast new). int (length b) = max 1 (EXCEL_CHUNK_SIZE st)" by blast
  have "bulk_writes (snd (process_excel_job st rt w jid p)) = bulk_writes w @ new"
    using run n(1)
    by (cases r)
       (simp_all add: process_excel_job_world completed_frame after_failure_frame
          committed_frame running_frame)
  with n(2) show ?thesis by blast
qed

text \<open>
  C2 (amended). The engine never reads the \<open>chunk_size\<close> of the job's row: a run on a
  ledger with other \<open>chunk_size\<close> values makes the same bulk writes and leaves the same
  state, and every bulk write but the last carries \<open>EXCEL_CHUNK_SIZE\<close> records of the
  settings the run executes under (one record when that setting is below 1).
\<close>

theorem batch_size_from_settings:
  "snd (process_excel_job st rt (set_chunk_sizes g w) jid p)
     = set_chunk_sizes g (snd (process_excel_job st rt w jid p))
   \<and> bulk_writes (snd (process_excel_job st rt (set_chunk_sizes g w) jid p))
     = bulk_writes (snd (process_excel_job st rt w jid p))
   \<and> (\<exists>new. bulk_writes (snd (process_excel_job st rt w jid p)) = bulk_writes w @ new
      \<and> (\<forall>b\<in>set (butlast new). int (length b) = max 1 (EXCEL_CHUNK_SIZE st)))"
proof -
  have "bulk_writes (set_chunk_sizes g (snd (process_excel_job st rt w jid p)))
      = bulk_writes (snd (process_excel_job st rt w jid p))"
    by (simp add: set_chunk_sizes_def)
  then show ?thesis
    using process_batch_sizes[of st rt w jid p]
    by (simp add: process_set_chunk_sizes)
qed

lemma w_people_load: "load_workbook w_people ''f.xlsx'' = Inr (hd people_sheet # tl people_sheet)"
  by code_simp

lemma w_people_cm: "column_map (header_map example_rt (hd people_sheet)) = Inr cm_people"
  using people_sheet_column_map by (simp add: people_sheet_def)

theorem blank_rows_skipped_witness:
  "load_workbook w_people ''f.xlsx'' = Inr (hd people_sheet # tl people_sheet)
   \<and> column_map (header_map example_rt (hd people_sheet)) = Inr cm_people
   \<and> length (tl people_sheet) = 7
   \<and> (\<exists>new. users (snd (process_excel_job example_settings example_rt w_people ''j1'' ''f.xlsx''))
               = users w_people @ concat new
            \<and> length (concat new) = 5
            \<and> (\<forall>u\<in>set (concat new). \<not> blank u))
   \<and> map inserted_rows
        (upload_jobs (snd (process_excel_job example_settings example_rt w_people ''j1'' ''f.xlsx''))) = [5]"
proof -
  let ?w' = "snd (process_excel_job example_settings example_rt w_people ''j1'' ''f.xlsx'')"
  have len: "length (users ?w') = 5" "users w_people = []" "length (tl people_sheet) = 7"
    by (code_simp, code_simp, code_simp)
  have ir: "map inserted_rows (upload_jobs ?w') = [5]" by code_simp
  from blank_rows_skipped[OF w_people_load w_people_cm, of example_settings "''j1''"]
  obtain new where n: "users ?w' = users w_people @ concat new"
    "\<forall>u\<in>set (concat new). \<not> blank u" by blast
  from n(1) len have "length (concat new) = 5" by simp
  with n have "\<exists>new. users ?w' = users w_people @ concat new \<and> length (concat new) = 5
            \<and> (\<forall>u\<in>set (concat new). \<not> blank u)" by blast
  then show ?thesis using w_people_load w_people_cm len(3) ir by simp
qed

text \<open>
  C1 at a concrete run: the storage rejects the second bulk write after the first chunk
  of two rows was committed. The handler's update raises, so the exception leaves the
  engine, two rows stay committed, and the job's row is left running with no error and
  \<open>inserted_rows\<close> 0; the property asks for failed, an error and \<open>inserted_rows\<close> 2.
\<close>

theorem storage_failure_leaves_job_running:
  "fst (process_excel_job example_settings example_rt w_fault ''j1'' ''f.xlsx'')
     = Inl (PendingRollbackError ''connection lost'')
   \<and> map length
       (bulk_writes (snd (process_excel_job example_settings example_rt w_fault ''j1'' ''f.xlsx'')))
     = [2]
   \<and> length (users (snd (process_excel_job example_settings example_rt w_fault ''j1'' ''f.xlsx'')))
     = 2
   \<and> map status
       (upload_jobs (snd (process_excel_job example_settings example_rt w_fault ''j1'' ''f.xlsx'')))
     = [''running'']
   \<and> map error
       (upload_jobs (snd (process_excel_job example_settings example_rt w_fault ''j1'' ''f.xlsx'')))
     = [None]
   \<and> map inserted_rows
       (upload_jobs (snd (process_excel_job example_settings example_rt w_fault ''j1'' ''f.xlsx'')))
     = [0]"
  by code_simp

theorem batch_size_from_settings_witness:
  "bulk_writes (snd (process_excel_job example_settings example_rt (set_chunk_sizes (\<lambda>i. 7) w_people)
      ''j1'' ''f.xlsx''))
     = bulk_writes (snd (process_excel_job example_settings example_rt w_people ''j1'' ''f.xlsx''))
   \<and> (\<exists>new. bulk_writes (snd (process_excel_job example_settings example_rt w_people ''j1'' ''f.xlsx''))
               = bulk_writes w_people @ new
            \<and> length new = 3
            \<and> (\<forall>b\<in>set (butlast new). int (length b) = 2))"
proof -
  let ?w' = "snd (process_excel_job example_settings example_rt w_people ''j1'' ''f.xlsx'')"
  have len: "length (bulk_writes ?w') = 3" "bulk_writes w_people = []"
    by (code_simp, code_simp)
  have c: "max 1 (EXCEL_CHUNK_SIZE example_settings) = 2" by (simp add: example_settings_def)
  from batch_size_from_settings[of example_settings example_rt "\<lambda>i. 7" w_people "''j1''" "''f.xlsx''"]
  obtain new where n:
    "bulk_writes (snd (process_excel_job example_settings example_rt (set_chunk_sizes (\<lambda>i. 7) w_people)
       ''j1'' ''f.xlsx'')) = bulk_writes ?w'"
    "bulk_writes ?w' = bulk_writes w_people @ new"
    "\<forall>b\<in>set (butlast new). int (length b) = 2"
    unfolding c by blast
  from n(2) len have "length new = 3" by simp
  with n show ?thesis by blast
qed

text \<open>
  A job created while the configured chunk size is 2 and run under a configured chunk
  size of 3 is written in batches of 3, not of the 2 its row records.
\<close>

theorem batch_size_ignores_ledger_chunk_size:
  "map chunk_size
     (upload_jobs
        (snd (process_excel_job (example_settings\<lparr>EXCEL_CHUNK_SIZE := 3\<rparr>) example_rt
           (snd (create_upload_job w_empty ''j1'' ''people.xlsx'' ''f.xlsx''
                   (EXCEL_CHUNK_SIZE example_settings)))
           ''j1'' ''f.xlsx''))) = [2]
   \<and> map length
     (bulk_writes
        (snd (process_excel_job (example_settings\<lparr>EXCEL_CHUNK_SIZE := 3\<rparr>) example_rt
           (snd (create_upload_job w_empty ''j1'' ''people.xlsx'' ''f.xlsx''
                   (EXCEL_CHUNK_SIZE example_settings)))
           ''j1'' ''f.xlsx''))) = [3, 2]"
  by code_simp

section \<open>Retention Sweeper: properties\<close>

lemma is_file_exists: "is_file w p \<Longrightarrow> path_exists w p"
  by (auto simp: is_file_def path_exists_def split: option.splits)

lemma cleanup_loop_fold: "snd (cleanup_loop jobs n w) = fold sweep_step jobs w"
proof (induction jobs arbitrary: n w)
  case Nil
  then show ?case by simp
next
  case (Cons job jobs)
  show ?case
  proof (cases "is_file w (saved_path job)")
    case True
    then show ?thesis
      by (cases "unlink_fault w (saved_path job)")
         (simp_all add: Cons.IH is_file_exists sweep_step_def unlink_def)
  next
    case False
    then show ?thesis by (simp add: Cons.IH sweep_step_def)
  qed
qed

lemma mark_frame:
  "files (mark_upload_file_deleted w jid) = files w"
  "unlink_fault (mark_upload_file_deleted w jid) = unlink_fault w"
  "clock (mark_upload_file_deleted w jid) = clock w"
  "ticks (mark_upload_file_deleted w jid) = Suc (ticks w)"
  by (simp_all add: ledger_ops)

lemma is_file_mark: "is_file (mark_upload_file_deleted w jid) p = is_file w p"
  by (simp add: is_file_def mark_frame)

lemma sweep_step_frame:
  "unlink_fault (sweep_step job w) = unlink_fault w"
  "clock (sweep_step job w) = clock w"
  "ticks (sweep_step job w) = (if stuck w (saved_path job) then ticks w else Suc (ticks w))"
  by (auto simp: sweep_step_def mark_frame stuck_def)

lemma sweep_step_files:
  "files (sweep_step job w) p =
     (if p = saved_path job \<and> is_file w p \<and> unlink_fault w p = None then None
      else files w p)"
  by (auto simp: sweep_step_def mark_frame)

lemma sweep_step_is_file:
  "is_file (sweep_step job w) p =
     (is_file w p \<and> \<not> (p = saved_path job \<and> unlink_fault w p = None))"
  by (auto simp: is_file_def sweep_step_files split: option.splits)

lemma sweep_step_stuck: "stuck (sweep_step job w) p = stuck w p"
  by (auto simp: stuck_def sweep_step_is_file sweep_step_frame)

lemma sweep_step_get:
  "get_upload_job (sweep_step job w) a =
     (if a = job_id job \<and> \<not> stuck w (saved_path job)
      then map_option (\<lambda>j. j\<lparr>file_deleted_at := Some (clock w (ticks w))\<rparr>) (get_upload_job w a)
      else get_upload_job w a)"
proof -
  have "get_upload_job (w\<lparr>files := f\<rparr>) a = get_upload_job w a" for f
    by (simp add: get_upload_job_def)
  then show ?thesis
    by (auto simp: sweep_step_def get_mark_deleted stuck_def)
qed

lemma sweep_fold_frame:
  "unlink_fault (fold sweep_step jobs w) = unlink_fault w"
  "clock (fold sweep_step jobs w) = clock w"
  "ticks w \<le> ticks (fold sweep_step jobs w)"
proof (induction jobs arbitrary: w)
  case Nil
  { case 1 show ?case by simp }
  { case 2 show ?case by simp }
  { case 3 show ?case by simp }
next
  case (Cons job jobs)
  { case 1 show ?case by (simp add: Cons.IH(1) sweep_step_frame) }
  { case 2 show ?case by (simp add: Cons.IH(2) sweep_step_frame) }
  { case 3
    have "ticks w \<le> ticks (sweep_step job w)" by (simp add: sweep_step_frame)
    also have "\<dots> \<le> ticks (fold sweep_step jobs (sweep_step job w))" by (rule Cons.IH(3))
    finally show ?case by simp }
qed

lemma sweep_fold_files:
  "files (fold sweep_step jobs w) p =
     (if p \<in> saved_path ` set jobs \<and> is_file w p \<and> unlink_fault w p = None then None
      else files w p)"
proof (induction jobs arbitrary: w)
  case Nil
  then show ?case by simp
next
  case (Cons job jobs)
  let ?w1 = "sweep_step job w"
  have ih: "files (fold sweep_step (job # jobs) w) p =
     (if p \<in> saved_path ` set jobs \<and> is_file ?w1 p \<and> unlink_fault w p = None then None
      else files ?w1 p)"
    by (simp add: Cons.IH sweep_step_frame)
  show ?case
  proof (cases "p = saved_path job \<and> is_file w p \<and> unlink_fault w p = None")
    case True
    then have t: "p = saved_path job" "is_file w (saved_path job)"
      "unlink_fault w (saved_path job) = None" by blast+
    have a: "files ?w1 (saved_path job) = None"
      using t(2,3) by (simp add: sweep_step_files)
    show ?thesis
      unfolding ih unfolding t(1) using a t(2,3) by simp
  next
    case False
    then have b: "files ?w1 p = files w p" "is_file ?w1 p = is_file w p"
      by (auto simp: sweep_step_files sweep_step_is_file)
    have "(p \<in> saved_path ` set (job # jobs) \<and> is_file w p \<and> unlink_fault w p = None)
        = (p \<in> saved_path ` set jobs \<and> is_file w p \<and> unlink_fault w p = None)"
      using False by auto
    then show ?thesis unfolding ih b by (simp only:)
  qed
qed

lemma sweep_fold_is_file:
  "is_file (fold sweep_step jobs w) p =
     (is_file w p \<and> \<not> (p \<in> saved_path ` set jobs \<and> unlink_fault w p = None))"
  by (auto simp: is_file_def sweep_fold_files split: option.splits)

lemma sweep_fold_get_other:
  "a \<notin> job_id ` set jobs \<Longrightarrow> get_upload_job (fold sweep_step jobs w) a = get_upload_job w a"
  by (induction jobs arbitrary: w) (auto simp: sweep_step_get)

lemma sweep_fold_get:
  assumes "distinct (map job_id jobs)" and "j \<in> set jobs"
    and "get_upload_job w (job_id j) = Some j0"
  shows "\<exists>k. ticks w \<le> k \<and> k < ticks (fold sweep_step jobs w) + (if stuck w (saved_path j) then 1 else 0)
           \<and> get_upload_job (fold sweep_step jobs w) (job_id j) =
               Some (if stuck w (saved_path j) then j0
                     else j0\<lparr>file_deleted_at := Some (clock w k)\<rparr>)"
  using assms
proof (induction jobs arbitrary: w)
  case Nil
  then show ?case by simp
next
  case (Cons job jobs)
  let ?w1 = "sweep_step job w"
  show ?case
  proof (cases "j = job")
    case True
    with Cons.prems(1) have "job_id j \<notin> job_id ` set jobs" by auto
    then have g: "get_upload_job (fold sweep_step jobs ?w1) (job_id j)
        = get_upload_job ?w1 (job_id j)" by (rule sweep_fold_get_other)
    show ?thesis
    proof (cases "stuck w (saved_path j)")
      case s: True
      have "ticks ?w1 = ticks w" using s True by (simp add: sweep_step_frame)
      then have "ticks w \<le> ticks (fold sweep_step jobs ?w1)"
        using sweep_fold_frame(3)[of ?w1 jobs] by simp
      then show ?thesis
        using g True s Cons.prems(3)
        by (intro exI[of _ "ticks w"]) (simp add: sweep_step_get)
    next
      case s: False
      have "ticks ?w1 = Suc (ticks w)" using s True by (simp add: sweep_step_frame)
      then have "Suc (ticks w) \<le> ticks (fold sweep_step jobs ?w1)"
        using sweep_fold_frame(3)[of ?w1 jobs] by simp
      then show ?thesis
        using g True s Cons.prems(3)
        by (intro exI[of _ "ticks w"]) (simp add: sweep_step_get)
    qed
  next
    case False
    with Cons.prems have j: "j \<in> set jobs" "distinct (map job_id jobs)"
      "job_id job \<notin> job_id ` set jobs" by auto
    then have "job_id j \<noteq> job_id job" by (metis imageI)
    note j = j(1,2) this
    then have "get_upload_job ?w1 (job_id j) = Some j0"
      using Cons.prems(3) by (simp add: sweep_step_get)
    from Cons.IH[OF j(2) j(1) this] obtain k where k:
      "ticks ?w1 \<le> k"
      "k < ticks (fold sweep_step jobs ?w1) + (if stuck ?w1 (saved_path j) then 1 else 0)"
      "get_upload_job (fold sweep_step jobs ?w1) (job_id j) =
         Some (if stuck ?w1 (saved_path j) then j0
               else j0\<lparr>file_deleted_at := Some (clock ?w1 k)\<rparr>)" by blast
    have "ticks w \<le> ticks ?w1" by (simp add: sweep_step_frame)
    with k show ?thesis
      by (intro exI[of _ k]) (simp add: sweep_step_stuck sweep_step_frame)
  qed
qed

lemma get_upload_job_member:
  "ledger_ok w \<Longrightarrow> j \<in> set (upload_jobs w) \<Longrightarrow> get_upload_job w (job_id j) = Some j"
proof -
  have "distinct (map job_id js) \<Longrightarrow> j \<in> set js \<Longrightarrow>
      find (\<lambda>x. job_id x = job_id j) js = Some j" for js
    by (induction js) (auto simp: image_iff)
  then show "ledger_ok w \<Longrightarrow> j \<in> set (upload_jobs w) \<Longrightarrow> get_upload_job w (job_id j) = Some j"
    by (simp add: ledger_ok_def get_upload_job_def)
qed

lemma get_upload_job_in: "get_upload_job w a = Some j \<Longrightarrow> j \<in> set (upload_jobs w) \<and> job_id j = a"
  unfolding get_upload_job_def by (auto simp: find_Some_iff)

lemma selected_iff:
  "x \<in> set (get_jobs_for_cleanup w t) \<longleftrightarrow>
     x \<in> set (upload_jobs w) \<and> (\<exists>c. completed_at x = Some c \<and> c \<le> t) \<and> file_deleted_at x = None"
  by (auto simp: get_jobs_for_cleanup_def)

lemma selected_distinct: "ledger_ok w \<Longrightarrow> distinct (map job_id (get_jobs_for_cleanup w t))"
  by (simp add: ledger_ok_def get_jobs_for_cleanup_def distinct_map_filter)

lemma sweep_world:
  "snd (cleanup_expired_uploads st w) =
     (if CLEANUP_EXPIRED_UPLOADS st
      then fold sweep_step (get_jobs_for_cleanup w (sweep_cutoff st w)) (w\<lparr>ticks := Suc (ticks w)\<rparr>)
      else w)"
proof -
  have "get_jobs_for_cleanup (w\<lparr>ticks := n\<rparr>) t = get_jobs_for_cleanup w t" for n t
    by (simp add: get_jobs_for_cleanup_def)
  then show ?thesis
    by (simp add: cleanup_expired_uploads_def utcnow_def sweep_cutoff_def cleanup_loop_fold)
qed

lemma tick_frame:
  "get_upload_job (w\<lparr>ticks := n\<rparr>) a = get_upload_job w a"
  "is_file (w\<lparr>ticks := n\<rparr>) p = is_file w p"
  "stuck (w\<lparr>ticks := n\<rparr>) p = stuck w p"
  by (simp_all add: get_upload_job_def is_file_def stuck_def)

text \<open>
  C4 (amended). In a sweep, for every selected job: if its path holds a file that the
  filesystem refuses to delete, the job's row is left as it was, \<open>file_deleted_at\<close>
  unset, and the file stays; otherwise (the file was deleted, or the path held no regular
  file) the row gets \<open>file_deleted_at\<close> set to a clock reading taken during the sweep.
  This holds of each selected job whatever happens to the others, and the sweep removes
  exactly the deletable regular files at the paths of the selected jobs.
\<close>

theorem sweep_marks_unless_delete_fails:
  assumes "CLEANUP_EXPIRED_UPLOADS st" and "ledger_ok w"
    and "j \<in> set (get_jobs_for_cleanup w (sweep_cutoff st w))"
  shows "(\<exists>k>ticks w.
            get_upload_job (snd (cleanup_expired_uploads st w)) (job_id j) =
              Some (if stuck w (saved_path j) then j
                    else j\<lparr>file_deleted_at := Some (clock w k)\<rparr>))
       \<and> (\<forall>p. files (snd (cleanup_expired_uploads st w)) p =
              (if p \<in> saved_path ` set (get_jobs_for_cleanup w (sweep_cutoff st w))
                  \<and> is_file w p \<and> unlink_fault w p = None
               then None else files w p))"
proof -
  let ?sel = "get_jobs_for_cleanup w (sweep_cutoff st w)"
  let ?w1 = "w\<lparr>ticks := Suc (ticks w)\<rparr>"
  have W: "snd (cleanup_expired_uploads st w) = fold sweep_step ?sel ?w1"
    using assms(1) by (simp add: sweep_world)
  from assms(3) have "j \<in> set (upload_jobs w)" by (simp add: selected_iff)
  then have "get_upload_job ?w1 (job_id j) = Some j"
    using assms(2) by (simp add: tick_frame get_upload_job_member)
  from sweep_fold_get[OF selected_distinct[OF assms(2)] assms(3) this]
  obtain k where k: "ticks ?w1 \<le> k"
    "get_upload_job (fold sweep_step ?sel ?w1) (job_id j) =
        Some (if stuck ?w1 (saved_path j) then j
              else j\<lparr>file_deleted_at := Some (clock ?w1 k)\<rparr>)" by blast
  from k(1) have "ticks w < k" by simp
  with k(2) have first: "\<exists>k>ticks w.
      get_upload_job (snd (cleanup_expired_uploads st w)) (job_id j) =
        Some (if stuck w (saved_path j) then j else j\<lparr>file_deleted_at := Some (clock w k)\<rparr>)"
    unfolding W by (intro exI[of _ k]) (simp add: tick_frame)
  have "files (fold sweep_step ?sel ?w1) p =
      (if p \<in> saved_path ` set ?sel \<and> is_file w p \<and> unlink_fault w p = None
       then None else files w p)" for p
    unfolding sweep_fold_files by (simp add: tick_frame)
  with first show ?thesis unfolding W by blast
qed

text \<open>
  C9. A job is selected for cleanup exactly when its \<open>completed_at\<close> is set and not
  later than the cutoff and its \<open>file_deleted_at\<close> is unset (\<open>saved_path\<close> is never
  null). A sweep changes a row at most by setting \<open>file_deleted_at\<close>, and only for a
  job whose \<open>completed_at\<close> lies at least the retention window before the clock reading
  the sweep starts with and whose \<open>file_deleted_at\<close> was unset; a row whose
  \<open>file_deleted_at\<close> is set is not selected and is left as it is.
\<close>

theorem cleanup_eligibility:
  assumes "ledger_ok w" and "get_upload_job w a = Some j"
  shows "(\<forall>t x. x \<in> set (get_jobs_for_cleanup w t) \<longleftrightarrow>
            x \<in> set (upload_jobs w) \<and> (\<exists>c. completed_at x = Some c \<and> c \<le> t)
            \<and> file_deleted_at x = None)
       \<and> (\<exists>j'. get_upload_job (snd (cleanup_expired_uploads st w)) a = Some j'
            \<and> (j' = j \<or>
                 (\<exists>t. j' = j\<lparr>file_deleted_at := Some t\<rparr>)
                 \<and> (\<exists>c. completed_at j = Some c
                        \<and> c + timedelta_hours (UPLOAD_FILE_RETENTION_HOURS st) \<le> clock w (ticks w))
                 \<and> file_deleted_at j = None))
       \<and> (file_deleted_at j \<noteq> None \<longrightarrow>
            get_upload_job (snd (cleanup_expired_uploads st w)) a = Some j)"
proof -
  let ?sel = "get_jobs_for_cleanup w (sweep_cutoff st w)"
  let ?w1 = "w\<lparr>ticks := Suc (ticks w)\<rparr>"
  let ?W = "snd (cleanup_expired_uploads st w)"
  from get_upload_job_in[OF assms(2)] have jin: "j \<in> set (upload_jobs w)" "job_id j = a"
    by blast+
  have g1: "get_upload_job ?w1 (job_id j) = Some j"
    using assms(2) jin by (simp add: tick_frame)
  have unsel: "get_upload_job ?W a = Some j" if "j \<notin> set ?sel"
  proof (cases "CLEANUP_EXPIRED_UPLOADS st")
    case False
    then show ?thesis using assms(2) by (simp add: sweep_world)
  next
    case True
    have "a \<notin> job_id ` set ?sel"
    proof
      assume "a \<in> job_id ` set ?sel"
      then obtain x where x: "x \<in> set ?sel" "job_id x = a" by auto
      then have "x \<in> set (upload_jobs w)" by (simp add: selected_iff)
      from get_upload_job_member[OF assms(1) this] x(2) assms(2) have "x = j" by simp
      with x(1) that show False by simp
    qed
    then show ?thesis
      using True assms(2) by (simp add: sweep_world sweep_fold_get_other tick_frame)
  qed
  have sel: "\<exists>j'. get_upload_job ?W a = Some j'
      \<and> (j' = j \<or> (\<exists>t. j' = j\<lparr>file_deleted_at := Some t\<rparr>))" if s: "j \<in> set ?sel"
  proof (cases "CLEANUP_EXPIRED_UPLOADS st")
    case False
    then show ?thesis using assms(2) by (simp add: sweep_world)
  next
    case True
    from sweep_fold_get[OF selected_distinct[OF assms(1)] s g1]
    obtain k where "get_upload_job (fold sweep_step ?sel ?w1) (job_id j) =
        Some (if stuck ?w1 (saved_path j) then j
              else j\<lparr>file_deleted_at := Some (clock ?w1 k)\<rparr>)" by blast
    then show ?thesis using True jin(2)
      by (cases "stuck ?w1 (saved_path j)") (auto simp: sweep_world)
  qed
  have elig: "(\<exists>c. completed_at j = Some c
        \<and> c + timedelta_hours (UPLOAD_FILE_RETENTION_HOURS st) \<le> clock w (ticks w))
      \<and> file_deleted_at j = None" if "j \<in> set ?sel"
    using that by (auto simp: selected_iff sweep_cutoff_def)
  have second: "\<exists>j'. get_upload_job ?W a = Some j'
            \<and> (j' = j \<or>
                 (\<exists>t. j' = j\<lparr>file_deleted_at := Some t\<rparr>)
                 \<and> (\<exists>c. completed_at j = Some c
                        \<and> c + timedelta_hours (UPLOAD_FILE_RETENTION_HOURS st) \<le> clock w (ticks w))
                 \<and> file_deleted_at j = None)"
  proof (cases "j \<in> set ?sel")
    case True
    from sel[OF True] elig[OF True] show ?thesis by blast
  next
    case False
    from unsel[OF False] show ?thesis by simp
  qed
  have third: "file_deleted_at j \<noteq> None \<longrightarrow> get_upload_job ?W a = Some j"
  proof
    assume "file_deleted_at j \<noteq> None"
    then have "j \<notin> set ?sel" by (simp add: selected_iff)
    then show "get_upload_job ?W a = Some j" by (rule unsel)
  qed
  from second third show ?thesis
    using selected_iff[of _ w] by blast
qed

lemma w_sweep_ok: "ledger_ok w_sweep"
  by code_simp

lemma w_sweep_selected:
  "get_jobs_for_cleanup w_sweep (sweep_cutoff example_settings w_sweep)
     = [upload_jobs w_sweep ! 0, upload_jobs w_sweep ! 3]"
  by code_simp

lemma w_sweep_jobs:
  "get_upload_job w_sweep ''a'' = Some (upload_jobs w_sweep ! 0)"
  "get_upload_job w_sweep ''c'' = Some (upload_jobs w_sweep ! 2)"
  "job_id (upload_jobs w_sweep ! 0) = ''a''"
  "job_id (upload_jobs w_sweep ! 3) = ''d''"
  "saved_path (upload_jobs w_sweep ! 0) = ''a.xlsx''"
  "saved_path (upload_jobs w_sweep ! 3) = ''d.xlsx''"
  by (code_simp, code_simp, code_simp, code_simp, code_simp, code_simp)

lemma w_sweep_files:
  "stuck w_sweep ''d.xlsx''" "\<not> stuck w_sweep ''a.xlsx''"
  "is_file w_sweep ''a.xlsx''" "unlink_fault w_sweep ''a.xlsx'' = None"
  "unlink_fault w_sweep ''d.xlsx'' \<noteq> None" "ticks w_sweep = 0"
  by (code_simp, code_simp, code_simp, code_simp, code_simp, code_simp)

theorem sweep_marks_unless_delete_fails_witness:
  "CLEANUP_EXPIRED_UPLOADS example_settings \<and> ledger_ok w_sweep
   \<and> upload_jobs w_sweep ! 0 \<in> set (get_jobs_for_cleanup w_sweep (sweep_cutoff example_settings w_sweep))
   \<and> upload_jobs w_sweep ! 3 \<in> set (get_jobs_for_cleanup w_sweep (sweep_cutoff example_settings w_sweep))
   \<and> (\<exists>k>0. get_upload_job (snd (cleanup_expired_uploads example_settings w_sweep)) ''a''
               = Some ((upload_jobs w_sweep ! 0)\<lparr>file_deleted_at := Some (clock w_sweep k)\<rparr>))
   \<and> get_upload_job (snd (cleanup_expired_uploads example_settings w_sweep)) ''d''
        = Some (upload_jobs w_sweep ! 3)
   \<and> files (snd (cleanup_expired_uploads example_settings w_sweep)) ''a.xlsx'' = None
   \<and> files (snd (cleanup_expired_uploads example_settings w_sweep)) ''d.xlsx''
        = files w_sweep ''d.xlsx''"
proof -
  have h1: "CLEANUP_EXPIRED_UPLOADS example_settings" by (simp add: example_settings_def)
  have a: "upload_jobs w_sweep ! 0
      \<in> set (get_jobs_for_cleanup w_sweep (sweep_cutoff example_settings w_sweep))"
    and d: "upload_jobs w_sweep ! 3
      \<in> set (get_jobs_for_cleanup w_sweep (sweep_cutoff example_settings w_sweep))"
    unfolding w_sweep_selected by simp_all
  note ta = sweep_marks_unless_delete_fails[OF h1 w_sweep_ok a]
  note td = sweep_marks_unless_delete_fails[OF h1 w_sweep_ok d]
  from ta have ra: "\<exists>k>0. get_upload_job (snd (cleanup_expired_uploads example_settings w_sweep)) ''a''
               = Some ((upload_jobs w_sweep ! 0)\<lparr>file_deleted_at := Some (clock w_sweep k)\<rparr>)"
    by (simp add: w_sweep_jobs w_sweep_files)
  from td have rd: "get_upload_job (snd (cleanup_expired_uploads example_settings w_sweep)) ''d''
        = Some (upload_jobs w_sweep ! 3)"
    by (simp add: w_sweep_jobs w_sweep_files)
  from ta have fa: "files (snd (cleanup_expired_uploads example_settings w_sweep)) ''a.xlsx'' = None"
    unfolding w_sweep_selected by (simp add: w_sweep_jobs w_sweep_files)
  from td have fd: "files (snd (cleanup_expired_uploads example_settings w_sweep)) ''d.xlsx''
        = files w_sweep ''d.xlsx''"
    unfolding w_sweep_selected by (simp add: w_sweep_jobs w_sweep_files)
  from h1 w_sweep_ok a d ra rd fa fd show ?thesis by (simp only: simp_thms)
qed

text \<open>
  Job d is selected and its file exists, the deletion raises, and the sweep leaves the
  job's \<open>file_deleted_at\<close> unset: the marking does not happen regardless of the outcome
  of the deletion.
\<close>

theorem failed_delete_leaves_job_unmarked:
  "''d'' \<in> set (map job_id (get_jobs_for_cleanup w_sweep (sweep_cutoff example_settings w_sweep)))
   \<and> map_option saved_path (get_upload_job w_sweep ''d'') = Some ''d.xlsx''
   \<and> path_exists w_sweep ''d.xlsx''
   \<and> fst (unlink w_sweep ''d.xlsx'') = Inl (OSError ''Permission denied'')
   \<and> map_option file_deleted_at
        (get_upload_job (snd (cleanup_expired_uploads example_settings w_sweep)) ''d'') = Some None"
  by code_simp

theorem cleanup_eligibility_witness:
  "ledger_ok w_sweep
   \<and> get_upload_job w_sweep ''a'' = Some (upload_jobs w_sweep ! 0)
   \<and> get_upload_job w_sweep ''c'' = Some (upload_jobs w_sweep ! 2)
   \<and> file_deleted_at (upload_jobs w_sweep ! 2) \<noteq> None
   \<and> upload_jobs w_sweep ! 0 \<in> set (get_jobs_for_cleanup w_sweep 10)
   \<and> upload_jobs w_sweep ! 2 \<notin> set (get_jobs_for_cleanup w_sweep 10)
   \<and> get_upload_job (snd (cleanup_expired_uploads example_settings w_sweep)) ''c''
        = Some (upload_jobs w_sweep ! 2)
   \<and> (\<exists>j'. get_upload_job (snd (cleanup_expired_uploads example_settings w_sweep)) ''a'' = Some j'
          \<and> j' \<noteq> upload_jobs w_sweep ! 0
          \<and> (\<exists>c. completed_at (upload_jobs w_sweep ! 0) = Some c
                 \<and> c + timedelta_hours 72 \<le> clock w_sweep 0)
          \<and> file_deleted_at (upload_jobs w_sweep ! 0) = None)"
proof -
  let ?W = "snd (cleanup_expired_uploads example_settings w_sweep)"
  have fc: "file_deleted_at (upload_jobs w_sweep ! 2) \<noteq> None" by code_simp
  note ta = cleanup_eligibility[OF w_sweep_ok w_sweep_jobs(1), of example_settings]
  note tc = cleanup_eligibility[OF w_sweep_ok w_sweep_jobs(2), of example_settings]
  from tc fc have rc: "get_upload_job ?W ''c'' = Some (upload_jobs w_sweep ! 2)" by blast
  have ne: "get_upload_job ?W ''a'' \<noteq> Some (upload_jobs w_sweep ! 0)" by code_simp
  have r: "UPLOAD_FILE_RETENTION_HOURS example_settings = 72" by (simp add: example_settings_def)
  from ta ne obtain j' where j': "get_upload_job ?W ''a'' = Some j'"
    "j' \<noteq> upload_jobs w_sweep ! 0"
    "\<exists>c. completed_at (upload_jobs w_sweep ! 0) = Some c
        \<and> c + timedelta_hours 72 \<le> clock w_sweep (ticks w_sweep)"
    "file_deleted_at (upload_jobs w_sweep ! 0) = None"
    unfolding r by auto
  have sel: "upload_jobs w_sweep ! 0 \<in> set (get_jobs_for_cleanup w_sweep 10)"
    "upload_jobs w_sweep ! 2 \<notin> set (get_jobs_for_cleanup w_sweep 10)"
    by (code_simp, code_simp)
  from j' have "\<exists>j'. get_upload_job ?W ''a'' = Some j'
          \<and> j' \<noteq> upload_jobs w_sweep ! 0
          \<and> (\<exists>c. completed_at (upload_jobs w_sweep ! 0) = Some c
                 \<and> c + timedelta_hours 72 \<le> clock w_sweep 0)
          \<and> file_deleted_at (upload_jobs w_sweep ! 0) = None"
    by (simp add: w_sweep_files)
  with w_sweep_ok w_sweep_jobs(1,2) fc sel rc show ?thesis by (simp only: simp_thms)
qed

section \<open>Recovery Supervisor: properties\<close>

lemma fail_jobs_simps:
  "fail_jobs msg [] w = w"
  "fail_jobs msg (job # jobs) w = fail_jobs msg jobs (set_upload_job_failed w (job_id job) msg)"
  by (simp_all add: fail_jobs_def)

lemma fail_interrupted_fail_jobs: "fail_interrupted jobs w = fail_jobs interrupted_msg jobs w"
  by (induction jobs arbitrary: w) (simp_all add: fail_jobs_simps)

lemma set_failed_ids:
  "map job_id (upload_jobs (set_upload_job_failed w a msg)) = map job_id (upload_jobs w)"
  by (simp add: ledger_ops comp_def cong: if_cong)

lemma path_exists_failed: "path_exists (set_upload_job_failed w a msg) p = path_exists w p"
  by (simp add: path_exists_def failed_frame)

lemma fail_jobs_ids: "map job_id (upload_jobs (fail_jobs msg jobs w)) = map job_id (upload_jobs w)"
  by (induction jobs arbitrary: w) (simp_all add: fail_jobs_simps set_failed_ids)

lemma fail_jobs_ok: "ledger_ok (fail_jobs msg jobs w) = ledger_ok w"
  by (simp add: ledger_ok_def fail_jobs_ids)

lemma fail_jobs_path_exists: "path_exists (fail_jobs msg jobs w) p = path_exists w p"
  by (induction jobs arbitrary: w) (simp_all add: fail_jobs_simps path_exists_failed)

lemma fail_jobs_get_other:
  "a \<notin> job_id ` set jobs \<Longrightarrow> get_upload_job (fail_jobs msg jobs w) a = get_upload_job w a"
  by (induction jobs arbitrary: w) (auto simp: fail_jobs_simps get_set_failed)

lemma fail_jobs_get:
  assumes "a \<in> job_id ` set jobs" and "get_upload_job w a = Some j"
  shows "\<exists>j'. get_upload_job (fail_jobs msg jobs w) a = Some j'
            \<and> status j' = ''failed'' \<and> error j' = Some msg"
  using assms
proof (induction jobs arbitrary: w j)
  case Nil
  then show ?case by simp
next
  case (Cons job jobs)
  let ?w1 = "set_upload_job_failed w (job_id job) msg"
  show ?case
  proof (cases "a \<in> job_id ` set jobs")
    case True
    have "\<exists>j1. get_upload_job ?w1 a = Some j1"
      using Cons.prems(2) by (auto simp: get_set_failed)
    then obtain j1 where "get_upload_job ?w1 a = Some j1" ..
    from Cons.IH[OF True this] show ?thesis by (simp add: fail_jobs_simps)
  next
    case False
    with Cons.prems(1) have a: "a = job_id job" by simp
    have "get_upload_job (fail_jobs msg (job # jobs) w) a = get_upload_job ?w1 a"
      using False by (simp add: fail_jobs_simps fail_jobs_get_other)
    then show ?thesis using a Cons.prems(2) by (auto simp: get_set_failed)
  qed
qed

lemma set_failed_rows:
  "x \<in> set (upload_jobs (set_upload_job_failed w a msg)) \<Longrightarrow>
     (job_id x = a \<and> status x = ''failed'' \<and> error x = Some msg)
     \<or> (job_id x \<noteq> a \<and> x \<in> set (upload_jobs w))"
  by (auto simp: ledger_ops)

lemma set_failed_keeps:
  "x \<in> set (upload_jobs w) \<Longrightarrow> job_id x \<noteq> a \<Longrightarrow>
     x \<in> set (upload_jobs (set_upload_job_failed w a msg))"
  by (auto simp: ledger_ops image_iff intro!: bexI[of _ x])

lemma fail_jobs_rows:
  "x \<in> set (upload_jobs (fail_jobs msg jobs w)) \<Longrightarrow>
     (job_id x \<in> job_id ` set jobs \<and> status x = ''failed'' \<and> error x = Some msg)
     \<or> (job_id x \<notin> job_id ` set jobs \<and> x \<in> set (upload_jobs w))"
proof (induction jobs arbitrary: w)
  case Nil
  then show ?case by (simp add: fail_jobs_simps)
next
  case (Cons job jobs)
  let ?w1 = "set_upload_job_failed w (job_id job) msg"
  from Cons.prems have "x \<in> set (upload_jobs (fail_jobs msg jobs ?w1))"
    by (simp add: fail_jobs_simps)
  from Cons.IH[OF this] show ?case
  proof
    assume "job_id x \<in> job_id ` set jobs \<and> status x = ''failed'' \<and> error x = Some msg"
    then show ?thesis by simp
  next
    assume a: "job_id x \<notin> job_id ` set jobs \<and> x \<in> set (upload_jobs ?w1)"
    then have "x \<in> set (upload_jobs ?w1)" by simp
    from set_failed_rows[OF this] a show ?thesis by auto
  qed
qed

lemma fail_jobs_keeps:
  "x \<in> set (upload_jobs w) \<Longrightarrow> job_id x \<notin> job_id ` set jobs \<Longrightarrow>
     x \<in> set (upload_jobs (fail_jobs msg jobs w))"
proof (induction jobs arbitrary: w)
  case Nil
  then show ?case by (simp add: fail_jobs_simps)
next
  case (Cons job jobs)
  then have "x \<in> set (upload_jobs (set_upload_job_failed w (job_id job) msg))"
    by (intro set_failed_keeps) auto
  with Cons show ?case by (simp add: fail_jobs_simps)
qed

lemma resume_queued_world:
  "fst (resume_queued jobs w started) =
     fail_jobs not_found_msg (filter (\<lambda>j. \<not> path_exists w (saved_path j)) jobs) w"
proof (induction jobs arbitrary: w started)
  case Nil
  then show ?case by (simp add: fail_jobs_simps)
next
  case (Cons job jobs)
  show ?case
    by (simp add: Cons.IH fail_jobs_simps path_exists_failed Let_def)
qed

lemma resume_queued_started:
  "snd (resume_queued jobs w started) =
     started @ map (\<lambda>j. (job_id j, saved_path j))
                 (filter (\<lambda>j. path_exists w (saved_path j)) jobs)"
proof (induction jobs arbitrary: w started)
  case Nil
  then show ?case by simp
next
  case (Cons job jobs)
  show ?case
    by (simp add: Cons.IH path_exists_failed Let_def)
qed

lemma ledger_ok_inj:
  "ledger_ok w \<Longrightarrow> x \<in> set (upload_jobs w) \<Longrightarrow> y \<in> set (upload_jobs w) \<Longrightarrow>
     job_id x = job_id y \<Longrightarrow> x = y"
  unfolding ledger_ok_def distinct_map by (auto dest: inj_onD)

lemma by_status_iff:
  "x \<in> set (get_upload_jobs_by_status w [s]) \<longleftrightarrow> x \<in> set (upload_jobs w) \<and> status x = s"
  by (auto simp: get_upload_jobs_by_status_def)

text \<open>
  C8. When the Recovery Supervisor runs on a ledger with distinct job ids: after its
  first loop no row is running, and the queued jobs are queried and examined in that
  state; every job that was running ends failed with the "interrupted" message; every
  queued job whose \<open>saved_path\<close> does not exist ends failed with the "file not found"
  message and no engine run is started for it.
\<close>

theorem recovery_supervisor:
  assumes "ledger_ok w"
  shows "get_upload_jobs_by_status
           (fail_interrupted (get_upload_jobs_by_status w [''running'']) w) [''running''] = []
       \<and> recover_jobs_after_restart w =
           resume_queued
             (get_upload_jobs_by_status
                (fail_interrupted (get_upload_jobs_by_status w [''running'']) w) [''queued''])
             (fail_interrupted (get_upload_jobs_by_status w [''running'']) w) []
       \<and> (\<forall>j\<in>set (upload_jobs w). status j = ''running'' \<longrightarrow>
            (\<exists>j'. get_upload_job (fst (recover_jobs_after_restart w)) (job_id j) = Some j'
                 \<and> status j' = ''failed'' \<and> error j' = Some interrupted_msg))
       \<and> (\<forall>j\<in>set (upload_jobs w). status j = ''queued'' \<and> \<not> path_exists w (saved_path j) \<longrightarrow>
            (\<exists>j'. get_upload_job (fst (recover_jobs_after_restart w)) (job_id j) = Some j'
                 \<and> status j' = ''failed'' \<and> error j' = Some not_found_msg)
            \<and> job_id j \<notin> fst ` set (snd (recover_jobs_after_restart w)))"
proof -
  let ?run = "get_upload_jobs_by_status w [''running'']"
  let ?w1 = "fail_jobs interrupted_msg ?run w"
  let ?queued = "get_upload_jobs_by_status ?w1 [''queued'']"
  let ?missing = "filter (\<lambda>j. \<not> path_exists ?w1 (saved_path j)) ?queued"
  let ?W = "fst (recover_jobs_after_restart w)"
  have rec: "recover_jobs_after_restart w = resume_queued ?queued ?w1 []"
    by (simp add: recover_jobs_after_restart_def fail_interrupted_fail_jobs Let_def)
  have W: "?W = fail_jobs not_found_msg ?missing ?w1"
    unfolding rec by (rule resume_queued_world)
  have ok1: "ledger_ok ?w1" using assms by (simp add: fail_jobs_ok)
  have norun: "status x \<noteq> ''running''" if "x \<in> set (upload_jobs ?w1)" for x
  proof -
    from fail_jobs_rows[OF that] show ?thesis
    proof
      assume "job_id x \<in> job_id ` set ?run \<and> status x = ''failed'' \<and> error x = Some interrupted_msg"
      then show ?thesis by simp
    next
      assume a: "job_id x \<notin> job_id ` set ?run \<and> x \<in> set (upload_jobs w)"
      show ?thesis
      proof
        assume "status x = ''running''"
        with a have "x \<in> set ?run" by (simp add: by_status_iff)
        with a show False by blast
      qed
    qed
  qed
  have first: "get_upload_jobs_by_status ?w1 [''running''] = []"
  proof -
    have "\<forall>x\<in>set (upload_jobs ?w1). \<not> status x \<in> set [''running'']"
      using norun by simp
    then have "filter (\<lambda>j. status j \<in> set [''running'']) (upload_jobs ?w1) = []"
      by (simp only: filter_empty_conv)
    then show ?thesis by (simp add: get_upload_jobs_by_status_def)
  qed
  have queued_in: "x \<in> set (upload_jobs w) \<and> status x = ''queued''" if "x \<in> set ?queued" for x
  proof -
    from that have x: "x \<in> set (upload_jobs ?w1)" "status x = ''queued''"
      by (simp_all add: by_status_iff)
    from fail_jobs_rows[OF x(1)] x(2) show ?thesis by auto
  qed
  have third: "\<exists>j'. get_upload_job ?W (job_id j) = Some j'
      \<and> status j' = ''failed'' \<and> error j' = Some interrupted_msg"
    if j: "j \<in> set (upload_jobs w)" "status j = ''running''" for j
  proof -
    from j have "job_id j \<in> job_id ` set ?run" by (simp add: by_status_iff)
    from fail_jobs_get[OF this get_upload_job_member[OF assms j(1)]]
    obtain j1 where j1: "get_upload_job ?w1 (job_id j) = Some j1"
      "status j1 = ''failed''" "error j1 = Some interrupted_msg" by blast
    have "job_id j \<notin> job_id ` set ?missing"
    proof
      assume "job_id j \<in> job_id ` set ?missing"
      then obtain x where x: "x \<in> set ?queued" "job_id x = job_id j" by auto
      from queued_in[OF x(1)] have "x \<in> set (upload_jobs w)" "status x = ''queued''" by blast+
      with ledger_ok_inj[OF assms this(1) j(1) x(2)] j(2) show False by simp
    qed
    then have "get_upload_job ?W (job_id j) = get_upload_job ?w1 (job_id j)"
      unfolding W by (rule fail_jobs_get_other)
    with j1 show ?thesis by simp
  qed
  have fourth: "(\<exists>j'. get_upload_job ?W (job_id j) = Some j'
        \<and> status j' = ''failed'' \<and> error j' = Some not_found_msg)
      \<and> job_id j \<notin> fst ` set (snd (recover_jobs_after_restart w))"
    if j: "j \<in> set (upload_jobs w)" "status j = ''queued''" "\<not> path_exists w (saved_path j)" for j
  proof -
    have "job_id j \<notin> job_id ` set ?run"
    proof
      assume "job_id j \<in> job_id ` set ?run"
      then obtain x where x: "x \<in> set (upload_jobs w)" "status x = ''running''"
        "job_id x = job_id j" by (auto simp: by_status_iff)
      with ledger_ok_inj[OF assms x(1) j(1) x(3)] j(2) show False by simp
    qed
    from fail_jobs_keeps[OF j(1) this] have in1: "j \<in> set (upload_jobs ?w1)" .
    with j(2) have q: "j \<in> set ?queued" by (simp add: by_status_iff)
    have ne: "\<not> path_exists ?w1 (saved_path j)" using j(3) by (simp add: fail_jobs_path_exists)
    with q have "job_id j \<in> job_id ` set ?missing" by simp
    from fail_jobs_get[OF this get_upload_job_member[OF ok1 in1]]
    have a: "\<exists>j'. get_upload_job ?W (job_id j) = Some j'
        \<and> status j' = ''failed'' \<and> error j' = Some not_found_msg"
      unfolding W .
    have "job_id j \<notin> fst ` set (snd (recover_jobs_after_restart w))"
    proof
      assume "job_id j \<in> fst ` set (snd (recover_jobs_after_restart w))"
      then obtain x where x: "x \<in> set ?queued" "path_exists ?w1 (saved_path x)"
        "job_id x = job_id j"
        unfolding rec resume_queued_started by auto
      from x(1) have "x \<in> set (upload_jobs ?w1)" by (simp add: by_status_iff)
      from ledger_ok_inj[OF ok1 this in1 x(3)] x(2) ne show False by simp
    qed
    with a show ?thesis by blast
  qed
  from first rec third fourth show ?thesis
    unfolding fail_interrupted_fail_jobs by blast
qed

theorem recovery_supervisor_witness:
  "ledger_ok w_restart
   \<and> map status (upload_jobs w_restart) = [''running'', ''queued'', ''queued'', ''completed'']
   \<and> \<not> path_exists w_restart ''m.xlsx''
   \<and> get_upload_jobs_by_status
        (fail_interrupted (get_upload_jobs_by_status w_restart [''running'']) w_restart)
        [''running''] = []
   \<and> (\<exists>j'. get_upload_job (fst (recover_jobs_after_restart w_restart)) ''r'' = Some j'
          \<and> status j' = ''failed'' \<and> error j' = Some interrupted_msg)
   \<and> (\<exists>j'. get_upload_job (fst (recover_jobs_after_restart w_restart)) ''m'' = Some j'
          \<and> status j' = ''failed'' \<and> error j' = Some not_found_msg)
   \<and> ''m'' \<notin> fst ` set (snd (recover_jobs_after_restart w_restart))
   \<and> snd (recover_jobs_after_restart w_restart) = [(''q'', ''q.xlsx'')]"
proof -
  have ok: "ledger_ok w_restart" by code_simp
  have st: "map status (upload_jobs w_restart) = [''running'', ''queued'', ''queued'', ''completed'']"
    by code_simp
  have jobs: "upload_jobs w_restart ! 0 \<in> set (upload_jobs w_restart)"
    "upload_jobs w_restart ! 2 \<in> set (upload_jobs w_restart)"
    by (simp_all add: w_restart_def example_world_def)
  have facts: "status (upload_jobs w_restart ! 0) = ''running''"
    "status (upload_jobs w_restart ! 2) = ''queued''"
    "job_id (upload_jobs w_restart ! 0) = ''r''"
    "job_id (upload_jobs w_restart ! 2) = ''m''"
    "saved_path (upload_jobs w_restart ! 2) = ''m.xlsx''"
    "\<not> path_exists w_restart ''m.xlsx''"
    by (code_simp, code_simp, code_simp, code_simp, code_simp, code_simp)
  have started: "snd (recover_jobs_after_restart w_restart) = [(''q'', ''q.xlsx'')]"
    by code_simp
  note t = recovery_supervisor[OF ok]
  from t have a: "get_upload_jobs_by_status
        (fail_interrupted (get_upload_jobs_by_status w_restart [''running'']) w_restart)
        [''running''] = []" by blast
  from t jobs(1) facts(1) have
    "\<exists>j'. get_upload_job (fst (recover_jobs_after_restart w_restart))
            (job_id (upload_jobs w_restart ! 0)) = Some j'
          \<and> status j' = ''failed'' \<and> error j' = Some interrupted_msg" by blast
  then have b: "\<exists>j'. get_upload_job (fst (recover_jobs_after_restart w_restart)) ''r'' = Some j'
          \<and> status j' = ''failed'' \<and> error j' = Some interrupted_msg"
    unfolding facts(3) .
  have "\<not> path_exists w_restart (saved_path (upload_jobs w_restart ! 2))"
    unfolding facts(5) by (rule facts(6))
  with t jobs(2) facts(2) have
    "(\<exists>j'. get_upload_job (fst (recover_jobs_after_restart w_restart))
            (job_id (upload_jobs w_restart ! 2)) = Some j'
          \<and> status j' = ''failed'' \<and> error j' = Some not_found_msg)
     \<and> job_id (upload_jobs w_restart ! 2) \<notin> fst ` set (snd (recover_jobs_after_restart w_restart))"
    by blast
  then have c: "(\<exists>j'. get_upload_job (fst (recover_jobs_after_restart w_restart)) ''m'' = Some j'
          \<and> status j' = ''failed'' \<and> error j' = Some not_found_msg)"
    "''m'' \<notin> fst ` set (snd (recover_jobs_after_restart w_restart))"
    unfolding facts(4) by blast+
  from ok st facts(6) a b c started show ?thesis by (simp only: simp_thms)
qed

end
